theory Spec2Isabelle
  imports Complex_Main
begin

section \<open>The animation engine of art0-8disks\<close>

text \<open>
  A shallow embedding of the class \<open>Animator\<close> of \<open>src/js/animator.js\<close>, and of the
  \<open>update\<close> method of its premium variant (\<open>src/unnamed/part_004\<close>, whose other scheduler
  methods are the same text).

  JavaScript numbers are modelled as exact reals: rounding is outside the model, and so are
  NaN and Infinity except in the destination rectangle of \<open>drawImage\<close>, where the code
  divides by the sides of an image; every property that goes through a division by a
  duration assumes the duration positive. Objects used as dictionaries are maps from the property name (colour
  names are taken not to be names that every object inherits, such as \<open>constructor\<close>);
  reading an index past the end of an array gives \<open>undefined\<close> (\<open>None\<close>), and \<open>undefined\<close>
  used as a property name is the name \<open>undefined\<close>, as in JavaScript. A thrown
  \<open>TypeError\<close> is the left summand of a result, together with the engine as the throw
  leaves it.

  What a call reads from the page (the clock, \<open>Math.random\<close>, the image cache, the handle
  that \<open>requestAnimationFrame\<close> returns) is an argument of the model; what it does to the
  page (console warnings, callbacks, calls on the canvas context, frame requests) is
  appended to the field \<open>trace\<close>. A callback is an observer: a handler that is registered
  is a flag, its call an entry of the trace, and it does not call back into the engine
  while the engine runs. Of the premium variant only \<open>update\<close> is modelled, not its frame
  driver with the quality tiers.
\<close>

subsection \<open>Data\<close>

datatype anim_state = IDLE | FADING | HOLDING

datatype error = TypeError

text \<open>An image handle: \<open>width\<close> and \<open>height\<close> are unsigned integers in the page.\<close>

record image =
  src :: string
  width :: nat
  height :: nat

record zone =
  current :: "image option"
  incoming :: "image option"
  alpha :: real

text \<open>A number that a division by zero may have produced.\<close>

datatype jsnum = Num real | PosInf | NegInf | NaN

datatype canvas_op =
    ClearRect real real real real
  | SetGlobalAlpha real
  | DrawImage image jsnum jsnum jsnum jsnum
  | SetTransform real real real real real real

datatype event =
    WarnNoImages string
  | WarnNotLoaded string
  | StatusUpdate "string option" nat
  | FpsUpdate nat
  | TransitionComplete
  | Ctx canvas_op
  | RequestFrame nat
  | CancelFrame nat

record env =
  performanceNow :: real
  mathRandom :: real
  imageLoaderGet :: "string \<rightharpoonup> image"
  requestId :: nat

record animator =
  canvasWidth :: real
  canvasHeight :: real
  displayWidth :: real
  displayHeight :: real
  dpr :: real
  running :: bool
  paused :: bool
  animationId :: "nat option"
  lastTime :: real
  fadeDuration :: real
  holdDuration :: real
  prefersReducedMotion :: bool
  state :: anim_state
  stateTime :: real
  imagesByColor :: "string \<rightharpoonup> string list"
  categories :: "string list"
  frameImage :: "image option"
  backgroundImage :: "image option"
  zones :: "string \<rightharpoonup> zone"
  currentZoneIndex :: nat
  currentSet :: nat
  usedImages :: "string \<rightharpoonup> string set"
  transitioningOut :: bool
  transitionAlpha :: real
  transitionTime :: "real option"
  frameCount :: nat
  fpsTime :: real
  currentFps :: nat
  targetFps :: real
  frameInterval :: real
  lastFrameTime :: real
  onStatusUpdate :: bool
  onFpsUpdate :: bool
  onTransitionComplete :: bool
  trace :: "event list"

type_synonym 'a result = "(error \<times> animator) + 'a"

subsection \<open>JavaScript reads\<close>

text \<open>\<open>xs[i]\<close>: \<open>undefined\<close> past the end.\<close>

definition index :: "'a list \<Rightarrow> nat \<Rightarrow> 'a option" where
  "index xs i = (if i < length xs then Some (xs ! i) else None)"

text \<open>\<open>obj[color]\<close>: the property name of a colour that may be \<open>undefined\<close>.\<close>

definition key_of :: "string option \<Rightarrow> string" where
  "key_of color = (case color of None \<Rightarrow> ''undefined'' | Some c \<Rightarrow> c)"

definition emit :: "event list \<Rightarrow> animator \<Rightarrow> animator" where
  "emit es s = s\<lparr>trace := trace s @ es\<rparr>"

subsection \<open>Construction\<close>

text \<open>
  The constructor, from the canvas size and the answer of the reduced-motion media query.
  \<open>transitionTime\<close> is a field of the premium variant only, \<open>undefined\<close> until its
  \<open>update\<close> writes it.
\<close>

definition new_Animator :: "real \<Rightarrow> real \<Rightarrow> bool \<Rightarrow> animator" where
  "new_Animator w h reduced =
     \<lparr> canvasWidth = w, canvasHeight = h, displayWidth = w, displayHeight = h, dpr = 1,
       running = False, paused = False, animationId = None, lastTime = 0,
       fadeDuration = 1.7, holdDuration = 1.7,
       prefersReducedMotion = reduced,
       state = IDLE, stateTime = 0,
       imagesByColor = Map.empty, categories = [],
       frameImage = None, backgroundImage = None,
       zones = Map.empty,
       currentZoneIndex = 0, currentSet = 0, usedImages = Map.empty,
       transitioningOut = False, transitionAlpha = 1, transitionTime = None,
       frameCount = 0, fpsTime = 0, currentFps = 0, targetFps = 60,
       frameInterval = 1000 / 60, lastFrameTime = 0,
       onStatusUpdate = False, onFpsUpdate = False, onTransitionComplete = False,
       trace = [] \<rparr>"

subsection \<open>Easing\<close>

definition easeInOutCubic :: "real \<Rightarrow> real" where
  "easeInOutCubic t = (if t < 0.5 then 4 * t * t * t else 1 - (- 2 * t + 2) ^ 3 / 2)"




subsection \<open>Images and reset\<close>

definition empty_zone :: zone where
  "empty_zone = \<lparr> current = None, incoming = None, alpha = 0 \<rparr>"

text \<open>The two loops of \<open>reset\<close>, each over the categories in order.\<close>

fun clear_used :: "string list \<Rightarrow> (string \<rightharpoonup> string set) \<Rightarrow> (string \<rightharpoonup> string set)" where
  "clear_used [] m = m"
| "clear_used (color # cs) m =
     clear_used cs (case m color of None \<Rightarrow> m | Some u \<Rightarrow> m(color \<mapsto> {}))"

fun clear_zones :: "string list \<Rightarrow> (string \<rightharpoonup> zone) \<Rightarrow> (string \<rightharpoonup> zone)" where
  "clear_zones [] m = m"
| "clear_zones (color # cs) m =
     clear_zones cs
       (case m color of None \<Rightarrow> m
        | Some z \<Rightarrow> m(color \<mapsto> z\<lparr>current := None, incoming := None, alpha := 0\<rparr>))"

definition reset :: "animator \<Rightarrow> animator" where
  "reset s =
     (let s1 = s\<lparr>currentZoneIndex := 0, currentSet := 0, state := IDLE, stateTime := 0,
                  transitioningOut := False, transitionAlpha := 1\<rparr>;
          s2 = s1\<lparr>usedImages := clear_used (categories s1) (usedImages s1)\<rparr>
      in s2\<lparr>zones := clear_zones (categories s2) (zones s2)\<rparr>)"

text \<open>The two loops of \<open>setImages\<close>, each building a fresh object.\<close>

fun init_used :: "string list \<Rightarrow> (string \<rightharpoonup> string set) \<Rightarrow> (string \<rightharpoonup> string set)" where
  "init_used [] m = m"
| "init_used (color # cs) m = init_used cs (m(color \<mapsto> {}))"

fun init_zones :: "string list \<Rightarrow> (string \<rightharpoonup> zone) \<Rightarrow> (string \<rightharpoonup> zone)" where
  "init_zones [] m = m"
| "init_zones (color # cs) m = init_zones cs (m(color \<mapsto> empty_zone))"

definition setImages :: "animator \<Rightarrow> (string \<rightharpoonup> string list) \<Rightarrow> string list \<Rightarrow> animator" where
  "setImages s imgs cats =
     reset (s\<lparr>imagesByColor := imgs, categories := cats,
              usedImages := init_used cats Map.empty,
              zones := init_zones cats Map.empty\<rparr>)"

definition setFrame :: "animator \<Rightarrow> image option \<Rightarrow> animator" where
  "setFrame s img = s\<lparr>frameImage := img\<rparr>"

definition setBackground :: "animator \<Rightarrow> image option \<Rightarrow> animator" where
  "setBackground s img = s\<lparr>backgroundImage := img\<rparr>"

subsection \<open>Image selection\<close>

text \<open>
  \<open>getRandomImage(color)\<close>, with the draw \<open>r\<close> of \<open>Math.random()\<close> as an argument;
  \<open>pickFrom available r\<close> is \<open>available[Math.floor(r * available.length)]\<close>.
  \<open>Math.random()\<close> is in \<open>[0,1)\<close>, which keeps the index inside \<open>available\<close>; for any other
  \<open>r\<close> the array read is \<open>undefined\<close>, which the method adds to the used set and returns:
  the model returns \<open>None\<close> and leaves the set of used strings as it is, since the set is
  only ever asked about the strings of the image list. \<open>usedImages[color].add\<close> throws
  when the colour has no used set.
\<close>

definition pickFrom :: "string list \<Rightarrow> real \<Rightarrow> string option" where
  "pickFrom available r =
     (let i = \<lfloor>r * real (length available)\<rfloor> in if 0 \<le> i then index available (nat i) else None)"

definition getRandomImage :: "animator \<Rightarrow> string option \<Rightarrow> real \<Rightarrow> (string option \<times> animator) result" where
  "getRandomImage s color r =
     (let k = key_of color;
          images = (case imagesByColor s k of None \<Rightarrow> [] | Some xs \<Rightarrow> xs)
      in if length images = 0 then Inr (None, s)
         else
           let used = (case usedImages s k of None \<Rightarrow> {} | Some u \<Rightarrow> u);
               available0 = filter (\<lambda>x. x \<notin> used) images;
               s1 = (if length available0 = 0 then s\<lparr>usedImages := (usedImages s)(k \<mapsto> {})\<rparr> else s);
               available = (if length available0 = 0 then images else available0);
               picked = pickFrom available r
           in case usedImages s1 k of
                None \<Rightarrow> Inl (TypeError, s1)
              | Some u \<Rightarrow>
                  (case picked of
                     None \<Rightarrow> Inr (None, s1)
                   | Some x \<Rightarrow> Inr (Some x, s1\<lparr>usedImages := (usedImages s1)(k \<mapsto> insert x u)\<rparr>)))"

subsection \<open>Zone fades\<close>

text \<open>\<open>!imageSrc\<close> holds for \<open>null\<close>, \<open>undefined\<close> and the empty string.\<close>

definition falsy :: "string option \<Rightarrow> bool" where
  "falsy x = (case x of None \<Rightarrow> True | Some v \<Rightarrow> v = [])"

definition startZoneFade :: "animator \<Rightarrow> env \<Rightarrow> (bool \<times> animator) result" where
  "startZoneFade s w =
     (let color = index (categories s) (currentZoneIndex s) in
      case getRandomImage s color (mathRandom w) of
        Inl e \<Rightarrow> Inl e
      | Inr (imageSrc, s1) \<Rightarrow>
          if falsy imageSrc then Inr (False, emit [WarnNoImages (key_of color)] s1)
          else
            (case imageLoaderGet w (the imageSrc) of
               None \<Rightarrow> Inr (False, emit [WarnNotLoaded (the imageSrc)] s1)
             | Some img \<Rightarrow>
                 (case zones s1 (key_of color) of
                    None \<Rightarrow> Inl (TypeError, s1)
                  | Some z \<Rightarrow>
                      let s2 = s1\<lparr>zones := (zones s1)(key_of color \<mapsto> z\<lparr>incoming := Some img, alpha := 0\<rparr>)\<rparr>
                      in Inr (True,
                           if onStatusUpdate s2
                           then emit [StatusUpdate color (currentSet s2 + 1)] s2 else s2))))"

definition completeZoneFade :: "animator \<Rightarrow> animator result" where
  "completeZoneFade s =
     (let color = index (categories s) (currentZoneIndex s) in
      case zones s (key_of color) of
        None \<Rightarrow> Inl (TypeError, s)
      | Some z \<Rightarrow>
          Inr (s\<lparr>zones := (zones s)(key_of color \<mapsto> z\<lparr>current := incoming z, incoming := None, alpha := 0\<rparr>)\<rparr>))"

definition advanceToNextZone :: "animator \<Rightarrow> animator" where
  "advanceToNextZone s =
     (let s1 = s\<lparr>currentZoneIndex := currentZoneIndex s + 1\<rparr> in
      if currentZoneIndex s1 \<ge> length (categories s1) then
        let s2 = s1\<lparr>currentZoneIndex := 0, currentSet := currentSet s1 + 1\<rparr> in
        if currentSet s2 \<ge> 1000 then s2\<lparr>currentSet := 0\<rparr> else s2
      else s1)"

subsection \<open>The scheduler's tick\<close>

definition effectiveFadeDuration :: "animator \<Rightarrow> real" where
  "effectiveFadeDuration s = (if prefersReducedMotion s then 0.1 else fadeDuration s)"

text \<open>The style-transition part of \<open>update\<close>, after the early return of a fade-out.\<close>

definition fadeIn :: "animator \<Rightarrow> real \<Rightarrow> animator" where
  "fadeIn s deltaTime =
     (if transitionAlpha s < 1 then
        let s1 = s\<lparr>transitionAlpha := transitionAlpha s + deltaTime / effectiveFadeDuration s\<rparr>
        in if transitionAlpha s1 > 1 then s1\<lparr>transitionAlpha := 1\<rparr> else s1
      else s)"

text \<open>The \<open>switch\<close> of \<open>update\<close>, with the fade duration and the zone curve it uses.\<close>

definition stateSwitch :: "real \<Rightarrow> (real \<Rightarrow> real) \<Rightarrow> animator \<Rightarrow> env \<Rightarrow> animator result" where
  "stateSwitch fade ease s w =
     (case state s of
        FADING \<Rightarrow>
          (let color = index (categories s) (currentZoneIndex s);
               s1 = (case zones s (key_of color) of
                       None \<Rightarrow> s
                     | Some z \<Rightarrow>
                         if incoming z \<noteq> None then
                           let progress = min (stateTime s / fade) 1
                           in s\<lparr>zones := (zones s)(key_of color \<mapsto>
                                  z\<lparr>alpha := (if prefersReducedMotion s then progress else ease progress)\<rparr>)\<rparr>
                         else s)
           in if stateTime s1 \<ge> fade then
                (case completeZoneFade s1 of
                   Inl e \<Rightarrow> Inl e
                 | Inr s2 \<Rightarrow> Inr (s2\<lparr>state := HOLDING, stateTime := 0\<rparr>))
              else Inr s1)
      | HOLDING \<Rightarrow>
          if stateTime s \<ge> holdDuration s then
            (case startZoneFade (advanceToNextZone s) w of
               Inl e \<Rightarrow> Inl e
             | Inr (started, s2) \<Rightarrow> Inr (s2\<lparr>state := FADING, stateTime := 0\<rparr>))
          else Inr s
      | IDLE \<Rightarrow> Inr s)"

definition update :: "animator \<Rightarrow> real \<Rightarrow> env \<Rightarrow> animator result" where
  "update s deltaTime w =
     (if transitioningOut s then
        let s1 = s\<lparr>transitionAlpha := transitionAlpha s - deltaTime / effectiveFadeDuration s\<rparr>
        in if transitionAlpha s1 \<le> 0 then
             let s2 = s1\<lparr>transitionAlpha := 0, transitioningOut := False\<rparr>
             in Inr (if onTransitionComplete s2 then emit [TransitionComplete] s2 else s2)
           else Inr s1
      else
        let s1 = fadeIn s deltaTime;
            s2 = s1\<lparr>stateTime := stateTime s1 + deltaTime\<rparr>
        in stateSwitch (effectiveFadeDuration s) easeInOutCubic s2 w)"

subsection \<open>The premium variant's tick\<close>






subsection \<open>The compositor\<close>

text \<open>\<open>this.displayWidth || this.canvas.width\<close>: zero is falsy.\<close>

definition renderWidth :: "animator \<Rightarrow> real" where
  "renderWidth s = (if displayWidth s \<noteq> 0 then displayWidth s else canvasWidth s)"

definition renderHeight :: "animator \<Rightarrow> real" where
  "renderHeight s = (if displayHeight s \<noteq> 0 then displayHeight s else canvasHeight s)"

text \<open>
  The arithmetic of the destination rectangle, where a side of the image may be 0:
  \<open>a / b\<close>, \<open>Math.min\<close>, \<open>a * x\<close>, \<open>a - x\<close> and \<open>x / 2\<close> as JavaScript defines them on
  infinities and NaN. The divisor is the side of an image, so a zero divisor is \<open>+0\<close>.
\<close>

definition jsdiv :: "real \<Rightarrow> real \<Rightarrow> jsnum" where
  "jsdiv a b = (if b \<noteq> 0 then Num (a / b) else if 0 < a then PosInf else if a < 0 then NegInf else NaN)"

fun jsmin :: "jsnum \<Rightarrow> jsnum \<Rightarrow> jsnum" where
  "jsmin NaN y = NaN"
| "jsmin x NaN = NaN"
| "jsmin NegInf y = NegInf"
| "jsmin x NegInf = NegInf"
| "jsmin PosInf y = y"
| "jsmin x PosInf = x"
| "jsmin (Num a) (Num b) = Num (min a b)"

fun jsmul :: "real \<Rightarrow> jsnum \<Rightarrow> jsnum" where
  "jsmul a (Num b) = Num (a * b)"
| "jsmul a PosInf = (if 0 < a then PosInf else if a < 0 then NegInf else NaN)"
| "jsmul a NegInf = (if 0 < a then NegInf else if a < 0 then PosInf else NaN)"
| "jsmul a NaN = NaN"

fun jssub :: "real \<Rightarrow> jsnum \<Rightarrow> jsnum" where
  "jssub a (Num b) = Num (a - b)"
| "jssub a PosInf = NegInf"
| "jssub a NegInf = PosInf"
| "jssub a NaN = NaN"

fun jshalf :: "jsnum \<Rightarrow> jsnum" where
  "jshalf (Num a) = Num (a / 2)"
| "jshalf x = x"

text \<open>\<open>drawImage(img, alpha)\<close>: the calls it makes on the context.\<close>

definition drawImage :: "animator \<Rightarrow> image option \<Rightarrow> real \<Rightarrow> canvas_op list" where
  "drawImage s img a =
     (case img of
        None \<Rightarrow> []
      | Some im \<Rightarrow>
          if a < 0.001 then []
          else
            let w = renderWidth s; h = renderHeight s;
                imgWidth = real (width im); imgHeight = real (height im);
                scale = jsmin (jsdiv w imgWidth) (jsdiv h imgHeight);
                drawWidth = jsmul imgWidth scale;
                drawHeight = jsmul imgHeight scale;
                x = jshalf (jssub w drawWidth);
                y = jshalf (jssub h drawHeight)
            in [SetGlobalAlpha (a * transitionAlpha s), DrawImage im x y drawWidth drawHeight])"

definition drawZone :: "animator \<Rightarrow> string \<Rightarrow> canvas_op list" where
  "drawZone s color =
     (case zones s color of
        None \<Rightarrow> []
      | Some z \<Rightarrow>
          (if current z \<noteq> None then drawImage s (current z) 1 else [])
          @ (if incoming z \<noteq> None \<and> alpha z > 0.001 then drawImage s (incoming z) (alpha z) else []))"

definition render :: "animator \<Rightarrow> canvas_op list" where
  "render s =
     [ClearRect 0 0 (renderWidth s) (renderHeight s), SetGlobalAlpha (transitionAlpha s)]
     @ (if backgroundImage s \<noteq> None then drawImage s (backgroundImage s) 1 else [])
     @ concat (map (drawZone s) (categories s))
     @ (if frameImage s \<noteq> None then drawImage s (frameImage s) 1 else [])
     @ [SetGlobalAlpha 1]"

subsection \<open>The frame driver\<close>

text \<open>\<open>if (this.animationId)\<close>: a handle that is set and not zero.\<close>

definition cancelFrame :: "animator \<Rightarrow> animator" where
  "cancelFrame s =
     (case animationId s of
        None \<Rightarrow> s
      | Some i \<Rightarrow> if i = 0 then s else emit [CancelFrame i] (s\<lparr>animationId := None\<rparr>))"

definition requestFrame :: "animator \<Rightarrow> env \<Rightarrow> animator" where
  "requestFrame s w = emit [RequestFrame (requestId w)] (s\<lparr>animationId := Some (requestId w)\<rparr>)"

definition loop :: "animator \<Rightarrow> env \<Rightarrow> animator result" where
  "loop s w =
     (if \<not> running s \<or> paused s then Inr s
      else
        let now = performanceNow w;
            elapsed = now - lastFrameTime s
        in if elapsed < frameInterval s * 0.9 then Inr (requestFrame s w)
           else
             let s1 = s\<lparr>lastFrameTime := now\<rparr>;
                 deltaTime = min ((now - lastTime s1) / 1000) 0.1;
                 s2 = s1\<lparr>lastTime := now\<rparr>;
                 s3 = s2\<lparr>frameCount := frameCount s2 + 1\<rparr>;
                 s4 = (if now - fpsTime s3 \<ge> 1000 then
                         let t = s3\<lparr>currentFps := frameCount s3, frameCount := 0, fpsTime := now\<rparr>
                         in if onFpsUpdate t then emit [FpsUpdate (currentFps t)] t else t
                       else s3)
             in case update s4 deltaTime w of
                  Inl e \<Rightarrow> Inl e
                | Inr s5 \<Rightarrow> Inr (requestFrame (emit (map Ctx (render s5)) s5) w))"

text \<open>
  \<open>start()\<close> reads the clock, and its call of \<open>loop()\<close> reads it again: \<open>w\<close> is what the
  body reads, \<open>w'\<close> what the nested \<open>loop()\<close> reads.
\<close>

definition start :: "animator \<Rightarrow> env \<Rightarrow> env \<Rightarrow> animator result" where
  "start s w w' =
     (if running s then Inr s
      else
        let s1 = s\<lparr>running := True, paused := False, lastTime := performanceNow w\<rparr>;
            s2 = s1\<lparr>lastFrameTime := lastTime s1\<rparr>;
            s3 = s2\<lparr>fpsTime := lastTime s2, frameCount := 0\<rparr>
        in case startZoneFade s3 w of
             Inl e \<Rightarrow> Inl e
           | Inr (started, s4) \<Rightarrow> loop (s4\<lparr>state := FADING, stateTime := 0\<rparr>) w')"

definition stop :: "animator \<Rightarrow> animator" where
  "stop s = cancelFrame (s\<lparr>running := False, paused := False\<rparr>)"

definition pause :: "animator \<Rightarrow> animator" where
  "pause s = (if \<not> running s then s else cancelFrame (s\<lparr>paused := True\<rparr>))"

definition resume :: "animator \<Rightarrow> env \<Rightarrow> env \<Rightarrow> animator result" where
  "resume s w w' =
     (if \<not> running s \<or> \<not> paused s then Inr s
      else
        let s1 = s\<lparr>paused := False, lastTime := performanceNow w\<rparr>;
            s2 = s1\<lparr>lastFrameTime := lastTime s1\<rparr>
        in loop s2 w')"

definition beginTransition :: "animator \<Rightarrow> animator" where
  "beginTransition s = s\<lparr>transitioningOut := True, transitionAlpha := 1\<rparr>"

definition resize :: "animator \<Rightarrow> real \<Rightarrow> real \<Rightarrow> real \<Rightarrow> animator" where
  "resize s w h d =
     (let s1 = s\<lparr>canvasWidth := w * d, canvasHeight := h * d\<rparr>;
          s2 = emit [Ctx (SetTransform d 0 0 d 0 0)] s1;
          s3 = s2\<lparr>displayWidth := w, displayHeight := h, dpr := d\<rparr>
      in if running s3 \<and> \<not> paused s3 then emit (map Ctx (render s3)) s3 else s3)"

subsection \<open>Outcomes, runs and reachable engines\<close>

text \<open>The value a call returned, and the engine a call leaves behind, thrown or not.\<close>

definition returned :: "'a result \<Rightarrow> 'a option" where
  "returned r = (case r of Inl e \<Rightarrow> None | Inr x \<Rightarrow> Some x)"

definition after :: "animator result \<Rightarrow> animator" where
  "after r = (case r of Inl e \<Rightarrow> snd e | Inr s \<Rightarrow> s)"

text \<open>The colour of the cursor as a property name: the zone that \<open>update\<close> works on.\<close>

definition activeKey :: "animator \<Rightarrow> string" where
  "activeKey s = key_of (index (categories s) (currentZoneIndex s))"

text \<open>The local constants \<open>images\<close> and \<open>used\<close> of \<open>getRandomImage\<close>.\<close>

definition imagesOf :: "animator \<Rightarrow> string option \<Rightarrow> string list" where
  "imagesOf s color = (case imagesByColor s (key_of color) of None \<Rightarrow> [] | Some xs \<Rightarrow> xs)"

definition usedOf :: "animator \<Rightarrow> string option \<Rightarrow> string set" where
  "usedOf s color = (case usedImages s (key_of color) of None \<Rightarrow> {} | Some u \<Rightarrow> u)"

text \<open>Consecutive selections for one colour, one draw each; a throw ends the run.\<close>

fun picks :: "animator \<Rightarrow> string option \<Rightarrow> real list \<Rightarrow> string option list" where
  "picks s color [] = []"
| "picks s color (r # rs) =
     (case getRandomImage s color r of
        Inl e \<Rightarrow> []
      | Inr (x, s') \<Rightarrow> x # picks s' color rs)"

text \<open>Consecutive calls of \<open>update\<close>, each with its delta and what it reads from the page.\<close>

fun ticks :: "animator \<Rightarrow> (real \<times> env) list \<Rightarrow> animator" where
  "ticks s [] = s"
| "ticks s (d # ds) = ticks (after (update s (fst d) (snd d))) ds"



text \<open>
  The public operations: the methods of the class, and the assignments the application
  (\<open>src/js/app.js\<close>) and the constructor's media-query listener make to its fields.
\<close>

datatype call =
    SetImages "string \<rightharpoonup> string list" "string list"
  | SetFrame "image option"
  | SetBackground "image option"
  | Reset
  | Start env env
  | Stop
  | Pause
  | Resume env env
  | BeginTransition
  | Update real env
  | Loop env
  | Resize real real real
  | AssignFadeDuration real
  | AssignHoldDuration real
  | AssignReducedMotion bool
  | AssignOnStatusUpdate bool
  | AssignOnFpsUpdate bool
  | AssignOnTransitionComplete bool

fun perform :: "animator \<Rightarrow> call \<Rightarrow> animator result" where
  "perform s (SetImages imgs cats) = Inr (setImages s imgs cats)"
| "perform s (SetFrame img) = Inr (setFrame s img)"
| "perform s (SetBackground img) = Inr (setBackground s img)"
| "perform s Reset = Inr (reset s)"
| "perform s (Start w w') = start s w w'"
| "perform s Stop = Inr (stop s)"
| "perform s Pause = Inr (pause s)"
| "perform s (Resume w w') = resume s w w'"
| "perform s BeginTransition = Inr (beginTransition s)"
| "perform s (Update deltaTime w) = update s deltaTime w"
| "perform s (Loop w) = loop s w"
| "perform s (Resize w h d) = Inr (resize s w h d)"
| "perform s (AssignFadeDuration v) = Inr (s\<lparr>fadeDuration := v\<rparr>)"
| "perform s (AssignHoldDuration v) = Inr (s\<lparr>holdDuration := v\<rparr>)"
| "perform s (AssignReducedMotion b) = Inr (s\<lparr>prefersReducedMotion := b\<rparr>)"
| "perform s (AssignOnStatusUpdate b) = Inr (s\<lparr>onStatusUpdate := b\<rparr>)"
| "perform s (AssignOnFpsUpdate b) = Inr (s\<lparr>onFpsUpdate := b\<rparr>)"
| "perform s (AssignOnTransitionComplete b) = Inr (s\<lparr>onTransitionComplete := b\<rparr>)"

text \<open>
  What the page guarantees about the arguments: a delta is not negative, the clock does not
  run backwards (a later reading is not below an earlier one, and \<open>lastTime\<close> is an
  earlier reading), and a fade duration is positive.
\<close>

fun admissible :: "animator \<Rightarrow> call \<Rightarrow> bool" where
  "admissible s (Update deltaTime w) = (0 \<le> deltaTime)"
| "admissible s (Loop w) = (lastTime s \<le> performanceNow w)"
| "admissible s (Start w w') = (performanceNow w \<le> performanceNow w')"
| "admissible s (Resume w w') = (performanceNow w \<le> performanceNow w')"
| "admissible s (AssignFadeDuration v) = (0 < v)"
| "admissible s c = True"

inductive reachable :: "animator \<Rightarrow> bool" where
  constructed: "reachable (new_Animator w h reduced)"
| called: "reachable s \<Longrightarrow> admissible s c \<Longrightarrow> reachable (after (perform s c))"

subsection \<open>The canvas\<close>

text \<open>
  What the calls of the engine do to the canvas: a model of the 2D context of the page, as
  far as the engine uses it. The canvas has a bitmap of \<open>bitmapWidth\<close> by \<open>bitmapHeight\<close>
  pixels, a transform, a global alpha and the layers drawn on it so far, back to front, each
  an image with its opacity and its destination rectangle in pixels of the bitmap.

  The engine only ever sets a scaling as the transform; any other transform is kept as
  \<open>None\<close>, under which nothing is known to be cleared or drawn.
\<close>

type_synonym layer = "image \<times> real \<times> real \<times> real \<times> real \<times> real"

record surface =
  bitmapWidth :: real
  bitmapHeight :: real
  transform :: "(real \<times> real) option"
  globalAlpha :: real
  layers :: "layer list"

definition scaling :: "real \<Rightarrow> real \<Rightarrow> real \<Rightarrow> real \<Rightarrow> real \<Rightarrow> real \<Rightarrow> (real \<times> real) option" where
  "scaling a b c d e f = (if b = 0 \<and> c = 0 \<and> e = 0 \<and> f = 0 then Some (a, d) else None)"





text \<open>
  The transform of the context after the calls of a trace, from the identity of a new
  context. (An assignment to \<open>canvas.width\<close> resets the transform; \<open>resize\<close>, the only
  method that assigns it, sets the transform right after.)
\<close>

fun transformOf :: "(real \<times> real) option \<Rightarrow> event \<Rightarrow> (real \<times> real) option" where
  "transformOf k (Ctx (SetTransform a b c d e f)) = scaling a b c d e f"
| "transformOf k e = k"

definition ctxScale :: "event list \<Rightarrow> (real \<times> real) option" where
  "ctxScale tr = foldl transformOf (Some (1, 1)) tr"


subsection \<open>The draw order in the specification's words\<close>





subsection \<open>Invariants of the engine\<close>

text \<open>Every category has its zone and its used set, and the cursor is inside the list.\<close>

definition wellFormed :: "animator \<Rightarrow> bool" where
  "wellFormed s =
     ((\<forall>c \<in> set (categories s). zones s c \<noteq> None \<and> usedImages s c \<noteq> None)
      \<and> (\<forall>c. zones s c \<noteq> None \<longrightarrow> c \<in> set (categories s))
      \<and> (categories s \<noteq> [] \<longrightarrow> currentZoneIndex s < length (categories s)))"

definition alphaBounds :: "animator \<Rightarrow> bool" where
  "alphaBounds s =
     (0 \<le> transitionAlpha s \<and> transitionAlpha s \<le> 1 \<and> 0 \<le> stateTime s \<and> 0 < fadeDuration s
      \<and> (\<forall>c z. zones s c = Some z \<longrightarrow> 0 \<le> alpha z \<and> alpha z \<le> 1))"

text \<open>A curve that maps the unit interval into itself.\<close>

definition unitCurve :: "(real \<Rightarrow> real) \<Rightarrow> bool" where
  "unitCurve ease = (\<forall>p. 0 \<le> p \<and> p \<le> 1 \<longrightarrow> 0 \<le> ease p \<and> ease p \<le> 1)"

text \<open>Only the zone of the cursor, and only while fading, has an incoming image or an alpha.\<close>

definition oneFade :: "animator \<Rightarrow> bool" where
  "oneFade s =
     (\<forall>c z. zones s c = Some z \<longrightarrow> (c \<noteq> activeKey s \<or> state s \<noteq> FADING)
        \<longrightarrow> incoming z = None \<and> alpha z = 0)"

definition engineInvariant :: "animator \<Rightarrow> bool" where
  "engineInvariant s = (wellFormed s \<and> alphaBounds s \<and> oneFade s \<and> currentSet s < 1000)"





text \<open>The engine after the alpha assignment of the FADING case of \<open>update\<close>.\<close>

definition fadeStep :: "real \<Rightarrow> (real \<Rightarrow> real) \<Rightarrow> animator \<Rightarrow> animator" where
  "fadeStep fade ease s =
     (case zones s (activeKey s) of
        None \<Rightarrow> s
      | Some z \<Rightarrow>
          if incoming z \<noteq> None then
            s\<lparr>zones := (zones s)(activeKey s \<mapsto>
                 z\<lparr>alpha := (if prefersReducedMotion s then min (stateTime s / fade) 1
                              else ease (min (stateTime s / fade) 1))\<rparr>)\<rparr>
          else s)"

text \<open>The engine that \<open>loop\<close> hands to \<open>update\<close>, and the delta it computes.\<close>

definition loopTick :: "animator \<Rightarrow> env \<Rightarrow> animator" where
  "loopTick s w =
     (let now = performanceNow w;
          s3 = s\<lparr>lastFrameTime := now, lastTime := now, frameCount := frameCount s + 1\<rparr>
      in if now - fpsTime s3 \<ge> 1000 then
           let t = s3\<lparr>currentFps := frameCount s3, frameCount := 0, fpsTime := now\<rparr>
           in if onFpsUpdate t then emit [FpsUpdate (currentFps t)] t else t
         else s3)"

definition loopDelta :: "animator \<Rightarrow> env \<Rightarrow> real" where
  "loopDelta s w = min ((performanceNow w - lastTime s) / 1000) 0.1"



subsection \<open>A concrete engine\<close>

text \<open>
  Two categories of two images each, every image in the cache, on an 800 by 800 canvas:
  the engine that the concrete instances below run.
\<close>

definition demo_images :: "string \<rightharpoonup> string list" where
  "demo_images = [''pink'' \<mapsto> [''p1.png'', ''p2.png''], ''green'' \<mapsto> [''g1.png'', ''g2.png'']]"

definition demo_cache :: "string \<rightharpoonup> image" where
  "demo_cache x = (if x \<in> {''p1.png'', ''p2.png'', ''g1.png'', ''g2.png''}
                   then Some \<lparr> src = x, width = 100, height = 50 \<rparr> else None)"

definition demo_env :: "real \<Rightarrow> real \<Rightarrow> env" where
  "demo_env t r = \<lparr> performanceNow = t, mathRandom = r, imageLoaderGet = demo_cache, requestId = 1 \<rparr>"

definition demo_engine :: "bool \<Rightarrow> animator" where
  "demo_engine reduced = setImages (new_Animator 800 800 reduced) demo_images [''pink'', ''green'']"

definition demo_started :: "bool \<Rightarrow> animator" where
  "demo_started reduced = after (start (demo_engine reduced) (demo_env 0 0) (demo_env 0 0))"




text \<open>An engine given an empty category list, started.\<close>

definition empty_started :: animator where
  "empty_started =
     after (start (setImages (new_Animator 800 800 False) Map.empty []) (demo_env 0 0) (demo_env 0 0))"

text \<open>An engine whose first category has no image, started.\<close>

definition sparse_images :: "string \<rightharpoonup> string list" where
  "sparse_images = [''pink'' \<mapsto> [], ''green'' \<mapsto> [''g1.png'']]"

definition sparse_started :: animator where
  "sparse_started =
     after (start (setImages (new_Animator 800 800 False) sparse_images [''pink'', ''green''])
              (demo_env 0 0) (demo_env 0 0))"

section \<open>Properties\<close>

subsection \<open>Evaluation of the concrete engine\<close>

lemmas demo_defs = demo_images_def demo_cache_def demo_env_def demo_engine_def demo_started_def
lemmas engine_defs = setImages_def reset_def new_Animator_def start_def startZoneFade_def getRandomImage_def
  pickFrom_def index_def key_of_def falsy_def emit_def loop_def requestFrame_def after_def empty_zone_def Let_def

subsection \<open>Reset and stop\<close>

lemma clear_used_apply:
  "clear_used cs m c = (if c \<in> set cs then map_option (\<lambda>u. {}) (m c) else m c)"
  by (induction cs arbitrary: m) (auto split: option.splits)

lemma clear_zones_apply:
  "clear_zones cs m c =
     (if c \<in> set cs then map_option (\<lambda>z. z\<lparr>current := None, incoming := None, alpha := 0\<rparr>) (m c) else m c)"
  by (induction cs arbitrary: m) (auto split: option.splits)

lemma init_used_apply:
  "init_used cs m c = (if c \<in> set cs then Some {} else m c)"
  by (induction cs arbitrary: m) auto

lemma init_zones_apply:
  "init_zones cs m c = (if c \<in> set cs then Some empty_zone else m c)"
  by (induction cs arbitrary: m) auto

lemma clear_used_idem: "clear_used cs (clear_used cs m) = clear_used cs m"
  by (rule ext) (simp add: clear_used_apply option.map_comp comp_def)

lemma clear_zones_idem: "clear_zones cs (clear_zones cs m) = clear_zones cs m"
  by (rule ext) (simp add: clear_zones_apply option.map_comp comp_def)

lemma stop_stop: "stop (stop s) = stop s"
  by (simp add: stop_def cancelFrame_def emit_def split: option.splits)

lemma reset_reset: "reset (reset s) = reset s"
  by (simp add: reset_def Let_def clear_used_idem clear_zones_idem)

subsection \<open>Image selection\<close>

lemma getRandomImage_empty:
  "imagesOf s color = [] \<Longrightarrow> getRandomImage s color r = Inr (None, s)"
  by (simp add: getRandomImage_def imagesOf_def)

lemma getRandomImage_no_set:
  "imagesOf s color \<noteq> [] \<Longrightarrow> usedImages s (key_of color) = None
   \<Longrightarrow> getRandomImage s color r = Inl (TypeError, s)"
  by (simp add: getRandomImage_def imagesOf_def Let_def)

lemma getRandomImage_fresh:
  assumes "imagesOf s color \<noteq> []" "usedImages s (key_of color) = Some u"
    and "filter (\<lambda>x. x \<notin> u) (imagesOf s color) \<noteq> []"
  shows "getRandomImage s color r =
           (case pickFrom (filter (\<lambda>x. x \<notin> u) (imagesOf s color)) r of
              None \<Rightarrow> Inr (None, s)
            | Some x \<Rightarrow> Inr (Some x, s\<lparr>usedImages := (usedImages s)(key_of color \<mapsto> insert x u)\<rparr>))"
  using assms by (simp add: getRandomImage_def imagesOf_def pickFrom_def Let_def)

lemma getRandomImage_exhausted:
  assumes "imagesOf s color \<noteq> []" "usedImages s (key_of color) = Some u"
    and "filter (\<lambda>x. x \<notin> u) (imagesOf s color) = []"
  shows "getRandomImage s color r =
           (case pickFrom (imagesOf s color) r of
              None \<Rightarrow> Inr (None, s\<lparr>usedImages := (usedImages s)(key_of color \<mapsto> {})\<rparr>)
            | Some x \<Rightarrow> Inr (Some x, s\<lparr>usedImages := (usedImages s)(key_of color \<mapsto> {x})\<rparr>))"
  using assms by (simp add: getRandomImage_def imagesOf_def pickFrom_def Let_def split: option.splits)

lemma getRandomImage_shape:
  "(\<exists>x u. getRandomImage s color r = Inr (x, s\<lparr>usedImages := u\<rparr>)
       \<and> (\<forall>c. usedImages s c \<noteq> None \<longrightarrow> u c \<noteq> None))
   \<or> (getRandomImage s color r = Inl (TypeError, s) \<and> usedImages s (key_of color) = None)"
proof (cases "imagesOf s color = []")
  case True
  have "getRandomImage s color r = Inr (None, s\<lparr>usedImages := usedImages s\<rparr>)"
    using True by (simp add: getRandomImage_empty)
  then show ?thesis by blast
next
  case False
  show ?thesis
  proof (cases "usedImages s (key_of color)")
    case None
    with False show ?thesis by (simp add: getRandomImage_no_set)
  next
    case (Some u0)
    show ?thesis
    proof (cases "filter (\<lambda>x. x \<notin> u0) (imagesOf s color) = []")
      case fresh: False
      show ?thesis
      proof (cases "pickFrom (filter (\<lambda>x. x \<notin> u0) (imagesOf s color)) r")
        case None
        then have "getRandomImage s color r = Inr (None, s\<lparr>usedImages := usedImages s\<rparr>)"
          using getRandomImage_fresh [OF False Some fresh, of r] by simp
        then show ?thesis by blast
      next
        case (Some x)
        then have "getRandomImage s color r =
            Inr (Some x, s\<lparr>usedImages := (usedImages s)(key_of color \<mapsto> insert x u0)\<rparr>)"
          using getRandomImage_fresh [OF False \<open>usedImages s (key_of color) = Some u0\<close> fresh, of r] by simp
        moreover have "\<forall>c. usedImages s c \<noteq> None \<longrightarrow> ((usedImages s)(key_of color \<mapsto> insert x u0)) c \<noteq> None"
          by simp
        ultimately show ?thesis by blast
      qed
    next
      case ex: True
      show ?thesis
      proof (cases "pickFrom (imagesOf s color) r")
        case None
        then have "getRandomImage s color r =
            Inr (None, s\<lparr>usedImages := (usedImages s)(key_of color \<mapsto> {})\<rparr>)"
          using getRandomImage_exhausted [OF False Some ex, of r] by simp
        moreover have "\<forall>c. usedImages s c \<noteq> None \<longrightarrow> ((usedImages s)(key_of color \<mapsto> {})) c \<noteq> None"
          by simp
        ultimately show ?thesis by blast
      next
        case (Some x)
        then have "getRandomImage s color r =
            Inr (Some x, s\<lparr>usedImages := (usedImages s)(key_of color \<mapsto> {x})\<rparr>)"
          using getRandomImage_exhausted [OF False \<open>usedImages s (key_of color) = Some u0\<close> ex, of r] by simp
        moreover have "\<forall>c. usedImages s c \<noteq> None \<longrightarrow> ((usedImages s)(key_of color \<mapsto> {x})) c \<noteq> None"
          by simp
        ultimately show ?thesis by blast
      qed
    qed
  qed
qed

lemma pickFrom_in_range:
  assumes "xs \<noteq> []" "0 \<le> r" "r < 1"
  shows "\<exists>x. pickFrom xs r = Some x \<and> x \<in> set xs"
proof -
  let ?n = "real (length xs)"
  have n: "0 < ?n" using assms(1) by simp
  have lo: "0 \<le> \<lfloor>r * ?n\<rfloor>" using assms(2) n by simp
  have "r * ?n < ?n" using assms(3) n by simp
  then have "\<lfloor>r * ?n\<rfloor> < int (length xs)" by (simp add: floor_less_iff)
  then have hi: "nat \<lfloor>r * ?n\<rfloor> < length xs" using lo by linarith
  show ?thesis using lo hi by (simp add: pickFrom_def index_def)
qed

lemma usedOf_update:
  "usedOf (s\<lparr>usedImages := (usedImages s)(key_of color \<mapsto> v)\<rparr>) color = v"
  by (simp add: usedOf_def)

lemma imagesOf_update: "imagesOf (s\<lparr>usedImages := m\<rparr>) color = imagesOf s color"
  by (simp add: imagesOf_def)

lemma filter_unused_empty: "(filter (\<lambda>x. x \<notin> u) xs = []) = (set xs \<subseteq> u)"
  by (auto simp: filter_empty_conv)

lemma selection_step:
  assumes "imagesOf s color \<noteq> []" "usedImages s (key_of color) = Some u" "0 \<le> r" "r < 1"
  shows "\<exists>x. x \<in> set (imagesOf s color)
           \<and> (if set (imagesOf s color) \<subseteq> u
               then getRandomImage s color r = Inr (Some x, s\<lparr>usedImages := (usedImages s)(key_of color \<mapsto> {x})\<rparr>)
               else x \<notin> u \<and> getRandomImage s color r
                      = Inr (Some x, s\<lparr>usedImages := (usedImages s)(key_of color \<mapsto> insert x u)\<rparr>))"
proof (cases "set (imagesOf s color) \<subseteq> u")
  case True
  then have ex: "filter (\<lambda>x. x \<notin> u) (imagesOf s color) = []" by (simp add: filter_unused_empty)
  obtain x where x: "pickFrom (imagesOf s color) r = Some x" "x \<in> set (imagesOf s color)"
    using pickFrom_in_range [OF assms(1,3,4)] by blast
  show ?thesis using True x getRandomImage_exhausted [OF assms(1,2) ex, of r] by auto
next
  case False
  then have fr: "filter (\<lambda>x. x \<notin> u) (imagesOf s color) \<noteq> []" by (simp add: filter_unused_empty)
  obtain x where x: "pickFrom (filter (\<lambda>x. x \<notin> u) (imagesOf s color)) r = Some x"
      "x \<in> set (filter (\<lambda>x. x \<notin> u) (imagesOf s color))"
    using pickFrom_in_range [OF fr assms(3,4)] by blast
  show ?thesis using False x getRandomImage_fresh [OF assms(1,2) fr, of r] by auto
qed

text \<open>
  C1, as the code has it. For a category with at least one image and a used set, and a
  draw in \<open>[0,1)\<close>, \<open>getRandomImage\<close> returns an image of the category's list and changes
  nothing but that category's used set. While some image of the list is unused, the image
  returned is not in the used set and is added to it. When the used set covers the list,
  the used set is cleared and the image is drawn from the full list, so the used set
  becomes that one image; the image may then be the one returned just before. The next
  selection differs from this one whenever this one has left an image of the list unused.
\<close>

theorem selection_without_replacement:
  assumes "imagesOf s color \<noteq> []" "usedImages s (key_of color) = Some u" "0 \<le> r" "r < 1"
  shows "\<exists>x s'. getRandomImage s color r = Inr (Some x, s')
           \<and> x \<in> set (imagesOf s color)
           \<and> s' = s\<lparr>usedImages := (usedImages s)(key_of color \<mapsto> usedOf s' color)\<rparr>
           \<and> (if set (imagesOf s color) \<subseteq> u then usedOf s' color = {x}
               else x \<notin> u \<and> usedOf s' color = insert x u)
           \<and> (\<forall>r'. 0 \<le> r' \<and> r' < 1 \<and> \<not> set (imagesOf s color) \<subseteq> usedOf s' color
                 \<longrightarrow> (\<exists>y s''. getRandomImage s' color r' = Inr (Some y, s'') \<and> y \<noteq> x
                        \<and> y \<in> set (imagesOf s color) \<and> usedOf s'' color = insert y (usedOf s' color)))"
proof -
  obtain x where x: "x \<in> set (imagesOf s color)"
    and step: "if set (imagesOf s color) \<subseteq> u
               then getRandomImage s color r = Inr (Some x, s\<lparr>usedImages := (usedImages s)(key_of color \<mapsto> {x})\<rparr>)
               else x \<notin> u \<and> getRandomImage s color r
                      = Inr (Some x, s\<lparr>usedImages := (usedImages s)(key_of color \<mapsto> insert x u)\<rparr>)"
    using selection_step [OF assms] by blast
  define v where "v = (if set (imagesOf s color) \<subseteq> u then {x} else insert x u)"
  define s' where "s' = s\<lparr>usedImages := (usedImages s)(key_of color \<mapsto> v)\<rparr>"
  have res: "getRandomImage s color r = Inr (Some x, s')"
    using step by (simp add: s'_def v_def split: if_splits)
  have used': "usedOf s' color = v" by (simp add: s'_def usedOf_update)
  have xin: "x \<in> v" by (simp add: v_def)
  have frame: "s' = s\<lparr>usedImages := (usedImages s)(key_of color \<mapsto> usedOf s' color)\<rparr>"
    using used' by (simp add: s'_def)
  have shape: "if set (imagesOf s color) \<subseteq> u then usedOf s' color = {x}
               else x \<notin> u \<and> usedOf s' color = insert x u"
    using step used' by (simp add: v_def split: if_splits)
  have next_pick: "\<exists>y s''. getRandomImage s' color r' = Inr (Some y, s'') \<and> y \<noteq> x
        \<and> y \<in> set (imagesOf s color) \<and> usedOf s'' color = insert y (usedOf s' color)"
    if r': "0 \<le> r'" "r' < 1" and more: "\<not> set (imagesOf s color) \<subseteq> usedOf s' color" for r'
  proof -
    have im': "imagesOf s' color = imagesOf s color" by (simp add: s'_def imagesOf_update)
    have ne': "imagesOf s' color \<noteq> []" using assms(1) im' by simp
    have u': "usedImages s' (key_of color) = Some v" by (simp add: s'_def)
    obtain y where y: "y \<in> set (imagesOf s' color)" "y \<notin> v"
        "getRandomImage s' color r' = Inr (Some y, s'\<lparr>usedImages := (usedImages s')(key_of color \<mapsto> insert y v)\<rparr>)"
      using selection_step [OF ne' u' r'] more used' im' by (auto split: if_splits)
    have "y \<noteq> x" using y(2) xin by blast
    moreover have "usedOf (s'\<lparr>usedImages := (usedImages s')(key_of color \<mapsto> insert y v)\<rparr>) color
        = insert y (usedOf s' color)"
      using used' by (simp add: usedOf_update)
    ultimately show ?thesis using y im' by auto
  qed
  show ?thesis using res x frame shape next_pick by blast
qed

theorem selection_without_replacement_witness:
  "imagesOf (demo_engine False) (Some ''pink'') \<noteq> []
   \<and> usedImages (demo_engine False) (key_of (Some ''pink'')) = Some {}
   \<and> (\<exists>x s'. getRandomImage (demo_engine False) (Some ''pink'') 0 = Inr (Some x, s')
         \<and> x \<in> set (imagesOf (demo_engine False) (Some ''pink''))
         \<and> usedOf s' (Some ''pink'') = insert x {})"
proof -
  have a: "imagesOf (demo_engine False) (Some ''pink'') \<noteq> []"
    by (simp add: imagesOf_def demo_defs engine_defs)
  have b: "usedImages (demo_engine False) (key_of (Some ''pink'')) = Some {}"
    by (simp add: demo_defs engine_defs)
  have c: "\<not> set (imagesOf (demo_engine False) (Some ''pink'')) \<subseteq> {}"
    by (simp add: imagesOf_def demo_defs engine_defs)
  show ?thesis
    using a b c selection_without_replacement [OF a b, of 0] by auto
qed

theorem immediate_repetition_counterexample:
  "imagesOf (demo_engine False) (Some ''pink'') = [''p1.png'', ''p2.png'']
   \<and> picks (demo_engine False) (Some ''pink'') [0, 0, 1/2]
       = [Some ''p1.png'', Some ''p2.png'', Some ''p2.png'']"
  by (simp add: imagesOf_def demo_defs engine_defs)

subsection \<open>Idempotent operations\<close>

text \<open>
  C9. A second \<open>stop()\<close> changes nothing after the first, \<open>reset()\<close> on a reset engine
  changes nothing, and \<open>start()\<close> on a running engine returns without an error and without
  a change.
\<close>

theorem idempotent_operations:
  "stop (stop s) = stop s \<and> reset (reset s) = reset s \<and> (running s \<longrightarrow> start s w w' = Inr s)"
  by (simp add: stop_stop reset_reset start_def)

theorem idempotent_operations_witness:
  "running (demo_started False)
   \<and> stop (stop (demo_started False)) = stop (demo_started False)
   \<and> reset (reset (demo_started False)) = reset (demo_started False)
   \<and> start (demo_started False) (demo_env 5 0) (demo_env 5 0) = Inr (demo_started False)"
proof -
  have r: "running (demo_started False)"
    by (simp add: demo_defs engine_defs)
  show ?thesis
    using r idempotent_operations [of "demo_started False" "demo_env 5 0" "demo_env 5 0"] by blast
qed

subsection \<open>Starting a zone fade\<close>

lemma startZoneFade_cases:
  obtains
    (threw) u where "startZoneFade s w = Inl (TypeError, s\<lparr>usedImages := u\<rparr>)"
      and "\<forall>c. usedImages s c \<noteq> None \<longrightarrow> u c \<noteq> None"
      and "usedImages s (activeKey s) = None \<or> zones s (activeKey s) = None"
  | (skipped) u tr where "startZoneFade s w = Inr (False, s\<lparr>usedImages := u, trace := tr\<rparr>)"
      and "\<forall>c. usedImages s c \<noteq> None \<longrightarrow> u c \<noteq> None"
      and "filter (\<lambda>e. e = TransitionComplete) tr = filter (\<lambda>e. e = TransitionComplete) (trace s)"
      and "ctxScale tr = ctxScale (trace s)"
  | (started) u tr z img where "zones s (activeKey s) = Some z"
      and "startZoneFade s w = Inr (True, s\<lparr>usedImages := u,
             zones := (zones s)(activeKey s \<mapsto> z\<lparr>incoming := Some img, alpha := 0\<rparr>), trace := tr\<rparr>)"
      and "\<forall>c. usedImages s c \<noteq> None \<longrightarrow> u c \<noteq> None"
      and "filter (\<lambda>e. e = TransitionComplete) tr = filter (\<lambda>e. e = TransitionComplete) (trace s)"
      and "ctxScale tr = ctxScale (trace s)"
proof -
  let ?color = "index (categories s) (currentZoneIndex s)"
  have sh: "(\<exists>x u. getRandomImage s ?color (mathRandom w) = Inr (x, s\<lparr>usedImages := u\<rparr>)
       \<and> (\<forall>c. usedImages s c \<noteq> None \<longrightarrow> u c \<noteq> None))
   \<or> (getRandomImage s ?color (mathRandom w) = Inl (TypeError, s) \<and> usedImages s (key_of ?color) = None)"
    by (rule getRandomImage_shape)
  show thesis using sh
  proof (elim disjE exE conjE)
    fix x u
    assume a: "getRandomImage s ?color (mathRandom w) = Inr (x, s\<lparr>usedImages := u\<rparr>)"
        "\<forall>c. usedImages s c \<noteq> None \<longrightarrow> u c \<noteq> None"
    show thesis
    proof (cases "falsy x")
      case True
      then have "startZoneFade s w = Inr (False, s\<lparr>usedImages := u, trace := trace s @ [WarnNoImages (key_of ?color)]\<rparr>)"
        using a(1) by (simp add: startZoneFade_def emit_def)
      then show thesis by (rule skipped [OF _ a(2)]) (simp_all add: ctxScale_def)
    next
      case False
      show thesis
      proof (cases "imageLoaderGet w (the x)")
        case None
        then have "startZoneFade s w = Inr (False, s\<lparr>usedImages := u, trace := trace s @ [WarnNotLoaded (the x)]\<rparr>)"
          using a(1) False by (simp add: startZoneFade_def emit_def)
        then show thesis by (rule skipped [OF _ a(2)]) (simp_all add: ctxScale_def)
      next
        case (Some img)
        show thesis
        proof (cases "zones s (activeKey s)")
          case None
          then have "startZoneFade s w = Inl (TypeError, s\<lparr>usedImages := u\<rparr>)"
            using a(1) False Some by (simp add: startZoneFade_def activeKey_def)
          then show thesis using threw a(2) None by blast
        next
          case z: (Some z)
          have "startZoneFade s w = Inr (True, s\<lparr>usedImages := u,
             zones := (zones s)(activeKey s \<mapsto> z\<lparr>incoming := Some img, alpha := 0\<rparr>),
             trace := (if onStatusUpdate s then trace s @ [StatusUpdate ?color (currentSet s + 1)] else trace s)\<rparr>)"
            using a(1) False Some z by (simp add: startZoneFade_def activeKey_def emit_def Let_def)
          then show thesis by (rule started [OF z _ a(2)]) (simp_all add: ctxScale_def)
        qed
      qed
    qed
  next
    assume b: "getRandomImage s ?color (mathRandom w) = Inl (TypeError, s)" "usedImages s (key_of ?color) = None"
    have "startZoneFade s w = Inl (TypeError, s\<lparr>usedImages := usedImages s\<rparr>)"
      using b(1) by (simp add: startZoneFade_def)
    then show thesis using threw [of "usedImages s"] b(2) by (simp add: activeKey_def)
  qed
qed

lemma advance_fields:
  "categories (advanceToNextZone s) = categories s"
  "zones (advanceToNextZone s) = zones s"
  "usedImages (advanceToNextZone s) = usedImages s"
  "state (advanceToNextZone s) = state s"
  "stateTime (advanceToNextZone s) = stateTime s"
  "transitionAlpha (advanceToNextZone s) = transitionAlpha s"
  "fadeDuration (advanceToNextZone s) = fadeDuration s"
  "currentZoneIndex (advanceToNextZone s)
     = (if currentZoneIndex s + 1 \<ge> length (categories s) then 0 else currentZoneIndex s + 1)"
  by (simp_all add: advanceToNextZone_def Let_def)


lemma advance_wellFormed: "wellFormed s \<Longrightarrow> wellFormed (advanceToNextZone s)"
  by (simp add: wellFormed_def advance_fields)


lemma stateSwitch_IDLE: "state s = IDLE \<Longrightarrow> stateSwitch fade ease s w = Inr s"
  by (simp add: stateSwitch_def)


lemma stateSwitch_HOLDING:
  "state s = HOLDING \<Longrightarrow>
   stateSwitch fade ease s w =
     (if stateTime s \<ge> holdDuration s then
        (case startZoneFade (advanceToNextZone s) w of
           Inl e \<Rightarrow> Inl e
         | Inr p \<Rightarrow> Inr ((snd p)\<lparr>state := FADING, stateTime := 0\<rparr>))
      else Inr s)"
  by (simp add: stateSwitch_def split: sum.splits prod.splits)

lemma fadeStep_None: "zones s (activeKey s) = None \<Longrightarrow> fadeStep fade ease s = s"
  by (simp add: fadeStep_def)

lemma fadeStep_active:
  "activeKey (fadeStep fade ease s) = activeKey s"
  by (simp add: fadeStep_def activeKey_def split: option.splits)

lemma stateSwitch_FADING_step:
  assumes "state s = FADING"
  shows "stateSwitch fade ease s w =
           (if stateTime s \<ge> fade then
              (case completeZoneFade (fadeStep fade ease s) of
                 Inl e \<Rightarrow> Inl e
               | Inr s2 \<Rightarrow> Inr (s2\<lparr>state := HOLDING, stateTime := 0\<rparr>))
            else Inr (fadeStep fade ease s))"
proof -
  have st: "stateTime (fadeStep fade ease s) = stateTime s"
    by (simp add: fadeStep_def split: option.splits)
  have eq: "(case zones s (key_of (index (categories s) (currentZoneIndex s))) of
                       None \<Rightarrow> s
                     | Some z \<Rightarrow>
                         if incoming z \<noteq> None then
                           let progress = min (stateTime s / fade) 1
                           in s\<lparr>zones := (zones s)(key_of (index (categories s) (currentZoneIndex s)) \<mapsto>
                                  z\<lparr>alpha := (if prefersReducedMotion s then progress else ease progress)\<rparr>)\<rparr>
                         else s) = fadeStep fade ease s"
    by (simp add: fadeStep_def activeKey_def Let_def split: option.splits)
  show ?thesis
    unfolding stateSwitch_def Let_def assms anim_state.case eq [unfolded Let_def] st
    by (rule refl)
qed

subsection \<open>Well-formedness\<close>

lemma completeZoneFade_eq:
  "completeZoneFade s =
     (case zones s (activeKey s) of
        None \<Rightarrow> Inl (TypeError, s)
      | Some z \<Rightarrow> Inr (s\<lparr>zones := (zones s)(activeKey s \<mapsto>
                       z\<lparr>current := incoming z, incoming := None, alpha := 0\<rparr>)\<rparr>))"
  by (simp add: completeZoneFade_def activeKey_def Let_def split: option.splits)

lemma wellFormed_cong:
  assumes "wellFormed s" "categories s' = categories s" "currentZoneIndex s' = currentZoneIndex s"
    and "\<forall>c. (zones s' c \<noteq> None) = (zones s c \<noteq> None)"
    and "\<forall>c. usedImages s c \<noteq> None \<longrightarrow> usedImages s' c \<noteq> None"
  shows "wellFormed s'"
  using assms unfolding wellFormed_def by simp

lemma fadeStep_fields:
  "categories (fadeStep fade ease s) = categories s"
  "currentZoneIndex (fadeStep fade ease s) = currentZoneIndex s"
  "usedImages (fadeStep fade ease s) = usedImages s"
  "state (fadeStep fade ease s) = state s"
  "stateTime (fadeStep fade ease s) = stateTime s"
  "transitionAlpha (fadeStep fade ease s) = transitionAlpha s"
  "fadeDuration (fadeStep fade ease s) = fadeDuration s"
  by (simp_all add: fadeStep_def split: option.splits)

lemma fadeStep_zones:
  "zones (fadeStep fade ease s) c =
     (if c = activeKey s then
        (case zones s c of None \<Rightarrow> None
         | Some z \<Rightarrow> if incoming z \<noteq> None
                     then Some (z\<lparr>alpha := (if prefersReducedMotion s then min (stateTime s / fade) 1
                                             else ease (min (stateTime s / fade) 1))\<rparr>)
                     else Some z)
      else zones s c)"
  by (simp add: fadeStep_def split: option.splits)

lemma fadeStep_wellFormed: "wellFormed s \<Longrightarrow> wellFormed (fadeStep fade ease s)"
  by (erule wellFormed_cong) (simp_all add: fadeStep_fields fadeStep_zones split: option.splits)

lemma startZoneFade_wellFormed:
  assumes "wellFormed s"
  shows "wellFormed (case startZoneFade s w of Inl e \<Rightarrow> snd e | Inr p \<Rightarrow> snd p)"
proof (cases rule: startZoneFade_cases [of s w])
  case (threw u)
  show ?thesis unfolding threw(1) using threw(2) by (auto intro: wellFormed_cong [OF assms])
next
  case (skipped u tr)
  show ?thesis unfolding skipped(1) using skipped(2) by (auto intro: wellFormed_cong [OF assms])
next
  case (started u tr z img)
  show ?thesis unfolding started(2) using started(1,3) by (auto intro!: wellFormed_cong [OF assms] split: if_splits)
qed

lemma stateSwitch_wellFormed:
  assumes "wellFormed s"
  shows "wellFormed (after (stateSwitch fade ease s w))"
proof (cases "state s")
  case IDLE
  then show ?thesis using assms by (simp add: stateSwitch_IDLE after_def)
next
  case FADING
  have wf1: "wellFormed (fadeStep fade ease s)" using assms by (rule fadeStep_wellFormed)
  show ?thesis
  proof (cases "zones (fadeStep fade ease s) (activeKey (fadeStep fade ease s))")
    case None
    then show ?thesis using wf1
      by (simp add: stateSwitch_FADING_step [OF FADING] completeZoneFade_eq after_def)
  next
    case (Some z)
    have "wellFormed ((fadeStep fade ease s)\<lparr>zones := (zones (fadeStep fade ease s))(activeKey (fadeStep fade ease s) \<mapsto>
                       z\<lparr>current := incoming z, incoming := None, alpha := 0\<rparr>), state := HOLDING, stateTime := 0\<rparr>)"
      using Some by (intro wellFormed_cong [OF wf1]) auto
    then show ?thesis using wf1 Some
      by (simp add: stateSwitch_FADING_step [OF FADING] completeZoneFade_eq after_def)
  qed
next
  case HOLDING
  have wfa: "wellFormed (advanceToNextZone s)" using assms by (rule advance_wellFormed)
  have "wellFormed (case startZoneFade (advanceToNextZone s) w of Inl e \<Rightarrow> snd e | Inr p \<Rightarrow> snd p)"
    using wfa by (rule startZoneFade_wellFormed)
  then have "wellFormed (case startZoneFade (advanceToNextZone s) w of Inl e \<Rightarrow> snd e
       | Inr p \<Rightarrow> (snd p)\<lparr>state := FADING, stateTime := 0\<rparr>)"
    by (auto split: sum.splits elim: wellFormed_cong)
  then show ?thesis using assms
    by (auto simp add: stateSwitch_HOLDING [OF HOLDING] after_def split: sum.splits)
qed

subsection \<open>Alpha bounds\<close>

lemma alphaBounds_cong:
  assumes "alphaBounds s" "transitionAlpha s' = transitionAlpha s" "0 \<le> stateTime s'"
    and "fadeDuration s' = fadeDuration s"
    and "\<forall>c z. zones s' c = Some z \<longrightarrow> 0 \<le> alpha z \<and> alpha z \<le> 1"
  shows "alphaBounds s'"
  using assms unfolding alphaBounds_def by simp

lemma progress_unit:
  assumes "0 \<le> t" "0 < fade"
  shows "0 \<le> min (t / fade) 1 \<and> min (t / fade) (1::real) \<le> 1"
  using assms by simp

lemma fadeStep_alphaBounds:
  assumes "alphaBounds s" "0 < fade" "unitCurve ease"
  shows "alphaBounds (fadeStep fade ease s)"
proof (rule alphaBounds_cong [OF assms(1)])
  have t: "0 \<le> stateTime s" using assms(1) by (simp add: alphaBounds_def)
  have p: "0 \<le> min (stateTime s / fade) 1 \<and> min (stateTime s / fade) 1 \<le> 1"
    using progress_unit [OF t assms(2)] .
  then have e: "0 \<le> ease (min (stateTime s / fade) 1) \<and> ease (min (stateTime s / fade) 1) \<le> 1"
    using assms(3) by (simp add: unitCurve_def)
  show "\<forall>c z. zones (fadeStep fade ease s) c = Some z \<longrightarrow> 0 \<le> alpha z \<and> alpha z \<le> 1"
  proof (intro allI impI)
    fix c z assume z: "zones (fadeStep fade ease s) c = Some z"
    show "0 \<le> alpha z \<and> alpha z \<le> 1"
    proof (cases "zones s c")
      case None
      then show ?thesis using z by (simp add: fadeStep_zones split: if_splits)
    next
      case (Some z0)
      have z0: "0 \<le> alpha z0 \<and> alpha z0 \<le> 1" using assms(1) Some by (simp add: alphaBounds_def)
      show ?thesis using z Some z0 p e
        by (auto simp add: fadeStep_zones split: if_splits)
    qed
  qed
  show "0 \<le> stateTime (fadeStep fade ease s)" using t by (simp add: fadeStep_fields)
qed (simp_all add: fadeStep_fields)

lemma startZoneFade_alphaBounds:
  assumes "alphaBounds s"
  shows "alphaBounds (case startZoneFade s w of Inl e \<Rightarrow> snd e | Inr p \<Rightarrow> snd p)"
proof -
  have t: "0 \<le> stateTime s" using assms by (simp add: alphaBounds_def)
  have zs: "\<forall>c z. zones s c = Some z \<longrightarrow> 0 \<le> alpha z \<and> alpha z \<le> 1"
    using assms by (simp add: alphaBounds_def)
  show ?thesis
  proof (cases rule: startZoneFade_cases [of s w])
    case (threw u)
    show ?thesis unfolding threw(1) using t zs by (auto intro!: alphaBounds_cong [OF assms] split: if_splits)
  next
    case (skipped u tr)
    show ?thesis unfolding skipped(1) using t zs by (auto intro!: alphaBounds_cong [OF assms] split: if_splits)
  next
    case (started u tr z img)
    show ?thesis unfolding started(2) using t zs by (auto intro!: alphaBounds_cong [OF assms] split: if_splits)
  qed
qed

lemma stateSwitch_alphaBounds:
  assumes "alphaBounds s" "0 < fade" "unitCurve ease"
  shows "alphaBounds (after (stateSwitch fade ease s w))"
proof (cases "state s")
  case IDLE
  then show ?thesis using assms by (simp add: stateSwitch_IDLE after_def)
next
  case FADING
  have b1: "alphaBounds (fadeStep fade ease s)" using assms by (rule fadeStep_alphaBounds)
  show ?thesis
  proof (cases "zones (fadeStep fade ease s) (activeKey (fadeStep fade ease s))")
    case None
    then show ?thesis using b1
      by (simp add: stateSwitch_FADING_step [OF FADING] completeZoneFade_eq after_def)
  next
    case (Some z)
    have zs: "\<forall>c z. zones (fadeStep fade ease s) c = Some z \<longrightarrow> 0 \<le> alpha z \<and> alpha z \<le> 1"
      using b1 by (simp add: alphaBounds_def)
    have "alphaBounds ((fadeStep fade ease s)\<lparr>zones := (zones (fadeStep fade ease s))(activeKey (fadeStep fade ease s) \<mapsto>
                       z\<lparr>current := incoming z, incoming := None, alpha := 0\<rparr>), state := HOLDING, stateTime := 0\<rparr>)"
      using zs by (auto intro!: alphaBounds_cong [OF b1] split: if_splits)
    then show ?thesis using b1 Some
      by (simp add: stateSwitch_FADING_step [OF FADING] completeZoneFade_eq after_def)
  qed
next
  case HOLDING
  have ba: "alphaBounds (advanceToNextZone s)"
    using assms(1) by (simp add: alphaBounds_def advance_fields)
  have "alphaBounds (case startZoneFade (advanceToNextZone s) w of Inl e \<Rightarrow> snd e | Inr p \<Rightarrow> snd p)"
    using ba by (rule startZoneFade_alphaBounds)
  then have "alphaBounds (case startZoneFade (advanceToNextZone s) w of Inl e \<Rightarrow> snd e
       | Inr p \<Rightarrow> (snd p)\<lparr>state := FADING, stateTime := 0\<rparr>)"
    by (auto split: sum.splits simp add: alphaBounds_def)
  then show ?thesis using assms
    by (auto simp add: stateSwitch_HOLDING [OF HOLDING] after_def split: sum.splits)
qed

subsection \<open>One fade at a time\<close>

lemma oneFade_quiet:
  "oneFade s \<Longrightarrow> state s \<noteq> FADING \<Longrightarrow> zones s c = Some z \<Longrightarrow> incoming z = None \<and> alpha z = 0"
  unfolding oneFade_def by blast

lemma oneFade_others:
  "oneFade s \<Longrightarrow> c \<noteq> activeKey s \<Longrightarrow> zones s c = Some z \<Longrightarrow> incoming z = None \<and> alpha z = 0"
  unfolding oneFade_def by blast

lemma oneFadeI:
  "(\<And>c z. zones s c = Some z \<Longrightarrow> c \<noteq> activeKey s \<or> state s \<noteq> FADING \<Longrightarrow> incoming z = None \<and> alpha z = 0)
   \<Longrightarrow> oneFade s"
  unfolding oneFade_def by blast

lemma fadeStep_oneFade:
  assumes "oneFade s" "state s = FADING"
  shows "oneFade (fadeStep fade ease s)"
proof (rule oneFadeI)
  fix c z
  assume z: "zones (fadeStep fade ease s) c = Some z"
    and c: "c \<noteq> activeKey (fadeStep fade ease s) \<or> state (fadeStep fade ease s) \<noteq> FADING"
  have c': "c \<noteq> activeKey s" using c assms(2) by (simp add: fadeStep_active fadeStep_fields)
  then have "zones s c = Some z" using z by (simp add: fadeStep_zones)
  then show "incoming z = None \<and> alpha z = 0" using assms(1) c' by (rule_tac oneFade_others)
qed

lemma startZoneFade_oneFade:
  assumes "oneFade s"
  shows "oneFade (case startZoneFade s w of Inl e \<Rightarrow> snd e | Inr p \<Rightarrow> (snd p)\<lparr>state := FADING, stateTime := 0\<rparr>)"
proof -
  have q: "\<And>c z. zones s c = Some z \<Longrightarrow> c \<noteq> activeKey s \<or> state s \<noteq> FADING
        \<Longrightarrow> incoming z = None \<and> alpha z = 0"
    using assms unfolding oneFade_def by blast
  show ?thesis
  proof (cases rule: startZoneFade_cases [of s w])
    case (threw u)
    show ?thesis unfolding threw(1) using q by (auto intro!: oneFadeI simp add: activeKey_def split: if_splits)
  next
    case (skipped u tr)
    show ?thesis unfolding skipped(1) using q by (auto intro!: oneFadeI simp add: activeKey_def split: if_splits)
  next
    case (started u tr z img)
    show ?thesis unfolding started(2) using q
      by (auto intro!: oneFadeI simp add: activeKey_def split: if_splits)
  qed
qed

lemma stateSwitch_oneFade:
  assumes "oneFade s"
  shows "oneFade (after (stateSwitch fade ease s w))"
proof (cases "state s")
  case IDLE
  then show ?thesis using assms by (simp add: stateSwitch_IDLE after_def)
next
  case FADING
  have o1: "oneFade (fadeStep fade ease s)" using assms FADING by (rule fadeStep_oneFade)
  show ?thesis
  proof (cases "zones (fadeStep fade ease s) (activeKey (fadeStep fade ease s))")
    case None
    then show ?thesis using o1
      by (simp add: stateSwitch_FADING_step [OF FADING] completeZoneFade_eq after_def)
  next
    case (Some z)
    have "oneFade ((fadeStep fade ease s)\<lparr>zones := (zones (fadeStep fade ease s))(activeKey (fadeStep fade ease s) \<mapsto>
                       z\<lparr>current := incoming z, incoming := None, alpha := 0\<rparr>), state := HOLDING, stateTime := 0\<rparr>)"
    proof (rule oneFadeI)
      fix c z'
      assume z': "zones ((fadeStep fade ease s)\<lparr>zones := (zones (fadeStep fade ease s))(activeKey (fadeStep fade ease s) \<mapsto>
                       z\<lparr>current := incoming z, incoming := None, alpha := 0\<rparr>), state := HOLDING, stateTime := 0\<rparr>) c = Some z'"
      show "incoming z' = None \<and> alpha z' = 0"
      proof (cases "c = activeKey (fadeStep fade ease s)")
        case True
        then show ?thesis using z' by auto
      next
        case False
        then have "zones (fadeStep fade ease s) c = Some z'" using z' by simp
        then show ?thesis using o1 False by (rule_tac oneFade_others)
      qed
    qed
    then show ?thesis using o1 Some
      by (simp add: stateSwitch_FADING_step [OF FADING] completeZoneFade_eq after_def)
  qed
next
  case HOLDING
  have oa: "oneFade (advanceToNextZone s)"
    using oneFade_quiet [OF assms] HOLDING by (auto intro!: oneFadeI simp add: advance_fields)
  have "oneFade (case startZoneFade (advanceToNextZone s) w of Inl e \<Rightarrow> snd e
       | Inr p \<Rightarrow> (snd p)\<lparr>state := FADING, stateTime := 0\<rparr>)"
    using oa by (rule startZoneFade_oneFade)
  then show ?thesis using assms
    by (auto simp add: stateSwitch_HOLDING [OF HOLDING] after_def split: sum.splits)
qed




subsection \<open>Easing and the cursor\<close>

lemma easeInOutCubic_unit: "unitCurve easeInOutCubic"
  unfolding unitCurve_def
proof (intro allI impI)
  fix p :: real
  assume p: "0 \<le> p \<and> p \<le> 1"
  show "0 \<le> easeInOutCubic p \<and> easeInOutCubic p \<le> 1"
  proof (cases "p < 0.5")
    case True
    have a: "p * p \<le> (1/2) * (1/2)" using p True by (intro mult_mono) simp_all
    have "p * p * p \<le> (1/2) * (1/2) * (1/2)" using a p True by (intro mult_mono) simp_all
    moreover have "0 \<le> p * p * p" using p by simp
    ultimately show ?thesis using True by (simp add: easeInOutCubic_def)
  next
    case False
    define q where "q = - 2 * p + 2"
    have q: "0 \<le> q" "q \<le> 1" using p False by (simp_all add: q_def)
    have "0 \<le> q ^ 3" "q ^ 3 \<le> 1" using q by (simp_all add: power_le_one)
    then show ?thesis using False by (simp add: easeInOutCubic_def q_def)
  qed
qed

lemma startZoneFade_cursor:
  "categories (case startZoneFade s w of Inl e \<Rightarrow> snd e | Inr p \<Rightarrow> snd p) = categories s
   \<and> currentZoneIndex (case startZoneFade s w of Inl e \<Rightarrow> snd e | Inr p \<Rightarrow> snd p) = currentZoneIndex s
   \<and> currentSet (case startZoneFade s w of Inl e \<Rightarrow> snd e | Inr p \<Rightarrow> snd p) = currentSet s"
  by (cases rule: startZoneFade_cases [of s w]) simp_all

lemma advance_currentSet:
  "currentSet (advanceToNextZone s)
     = (if currentZoneIndex s + 1 \<ge> length (categories s)
        then (if currentSet s + 1 \<ge> 1000 then 0 else currentSet s + 1)
        else currentSet s)"
  by (simp add: advanceToNextZone_def Let_def)

lemma fadeStep_currentSet: "currentSet (fadeStep fade ease s) = currentSet s"
  by (simp add: fadeStep_def split: option.splits)

lemma stateSwitch_cursor:
  "categories (after (stateSwitch fade ease s w)) = categories s
   \<and> currentZoneIndex (after (stateSwitch fade ease s w))
       = (if state s = HOLDING \<and> stateTime s \<ge> holdDuration s
          then currentZoneIndex (advanceToNextZone s) else currentZoneIndex s)
   \<and> currentSet (after (stateSwitch fade ease s w))
       = (if state s = HOLDING \<and> stateTime s \<ge> holdDuration s
          then currentSet (advanceToNextZone s) else currentSet s)"
proof (cases "state s")
  case IDLE
  then show ?thesis by (simp add: stateSwitch_IDLE after_def)
next
  case FADING
  then show ?thesis
    by (simp add: stateSwitch_FADING_step [OF FADING] FADING completeZoneFade_eq after_def fadeStep_fields
             fadeStep_currentSet split: option.splits)
next
  case HOLDING
  show ?thesis using startZoneFade_cursor [of "advanceToNextZone s" w]
    by (auto simp add: stateSwitch_HOLDING [OF HOLDING] HOLDING after_def advance_fields split: sum.splits)
qed

lemma stateSwitch_invariant:
  assumes "engineInvariant s" "0 < fade" "unitCurve ease"
  shows "engineInvariant (after (stateSwitch fade ease s w))"
proof -
  have "currentSet (advanceToNextZone s) < 1000"
    using assms(1) by (simp add: advance_currentSet engineInvariant_def)
  then have "currentSet (after (stateSwitch fade ease s w)) < 1000"
    using assms(1) by (simp add: stateSwitch_cursor engineInvariant_def)
  then show ?thesis
    using assms stateSwitch_wellFormed [of s fade ease w] stateSwitch_alphaBounds [of s fade ease w]
      stateSwitch_oneFade [of s fade ease w]
    by (simp add: engineInvariant_def)
qed

subsection \<open>The tick\<close>

lemmas invariant_defs = engineInvariant_def wellFormed_def alphaBounds_def oneFade_def activeKey_def

lemma effectiveFadeDuration_pos: "0 < fadeDuration s \<Longrightarrow> 0 < effectiveFadeDuration s"
  by (simp add: effectiveFadeDuration_def)

lemma fadeIn_fields:
  "categories (fadeIn s d) = categories s"
  "zones (fadeIn s d) = zones s"
  "usedImages (fadeIn s d) = usedImages s"
  "currentZoneIndex (fadeIn s d) = currentZoneIndex s"
  "currentSet (fadeIn s d) = currentSet s"
  "state (fadeIn s d) = state s"
  "stateTime (fadeIn s d) = stateTime s"
  "fadeDuration (fadeIn s d) = fadeDuration s"
  "holdDuration (fadeIn s d) = holdDuration s"
  "prefersReducedMotion (fadeIn s d) = prefersReducedMotion s"
  "transitioningOut (fadeIn s d) = transitioningOut s"
  "trace (fadeIn s d) = trace s"
  by (simp_all add: fadeIn_def Let_def)

lemma fadeIn_alpha:
  "transitionAlpha (fadeIn s d)
     = (if transitionAlpha s < 1 then min 1 (transitionAlpha s + d / effectiveFadeDuration s)
        else transitionAlpha s)"
  by (simp add: fadeIn_def Let_def min_def)

lemma fadeIn_invariant:
  assumes "engineInvariant s" "0 \<le> d"
  shows "engineInvariant ((fadeIn s d)\<lparr>stateTime := stateTime (fadeIn s d) + d\<rparr>)"
proof -
  have e: "0 < effectiveFadeDuration s"
    using assms(1) by (simp add: effectiveFadeDuration_pos engineInvariant_def alphaBounds_def)
  then have q: "0 \<le> d / effectiveFadeDuration s" using assms(2) by simp
  have a: "0 \<le> transitionAlpha (fadeIn s d) \<and> transitionAlpha (fadeIn s d) \<le> 1"
    using assms(1) q by (simp add: fadeIn_alpha engineInvariant_def alphaBounds_def)
  show ?thesis
    using assms a by (simp add: invariant_defs fadeIn_fields)
qed

lemma update_out:
  "transitioningOut s \<Longrightarrow>
   update s d w =
     (if transitionAlpha s - d / effectiveFadeDuration s \<le> 0
      then Inr (s\<lparr>transitionAlpha := 0, transitioningOut := False,
                   trace := (if onTransitionComplete s then trace s @ [TransitionComplete] else trace s)\<rparr>)
      else Inr (s\<lparr>transitionAlpha := transitionAlpha s - d / effectiveFadeDuration s\<rparr>))"
  by (simp add: update_def Let_def emit_def)

lemma update_in:
  "\<not> transitioningOut s \<Longrightarrow>
   update s d w =
     stateSwitch (effectiveFadeDuration s) easeInOutCubic
       ((fadeIn s d)\<lparr>stateTime := stateTime (fadeIn s d) + d\<rparr>) w"
  by (simp add: update_def Let_def)

lemma update_invariant:
  assumes "engineInvariant s" "0 \<le> d"
  shows "engineInvariant (after (update s d w))"
proof (cases "transitioningOut s")
  case True
  have e: "0 < effectiveFadeDuration s"
    using assms(1) by (simp add: effectiveFadeDuration_pos engineInvariant_def alphaBounds_def)
  then have q: "0 \<le> d / effectiveFadeDuration s" using assms(2) by simp
  show ?thesis using assms(1) q
    by (simp add: update_out [OF True] after_def invariant_defs)
next
  case False
  have e: "0 < effectiveFadeDuration s"
    using assms(1) by (simp add: effectiveFadeDuration_pos engineInvariant_def alphaBounds_def)
  show ?thesis
    unfolding update_in [OF False]
    by (rule stateSwitch_invariant [OF fadeIn_invariant [OF assms] e easeInOutCubic_unit])
qed


subsection \<open>The frame driver\<close>

lemma after_Inr: "after (Inr s) = s"
  by (simp add: after_def)

lemma after_Inl: "after (Inl (e, s)) = s"
  by (simp add: after_def)

lemma requestFrame_invariant: "engineInvariant (requestFrame s w) = engineInvariant s"
  by (simp add: requestFrame_def emit_def invariant_defs)

lemma emit_invariant: "engineInvariant (emit es s) = engineInvariant s"
  by (simp add: emit_def invariant_defs)

lemma cancelFrame_invariant: "engineInvariant (cancelFrame s) = engineInvariant s"
  by (simp add: cancelFrame_def emit_def invariant_defs split: option.splits)

lemma loop_eq:
  "loop s w =
     (if \<not> running s \<or> paused s then Inr s
      else if performanceNow w - lastFrameTime s < frameInterval s * 0.9 then Inr (requestFrame s w)
      else case update (loopTick s w) (loopDelta s w) w of
             Inl e \<Rightarrow> Inl e
           | Inr s5 \<Rightarrow> Inr (requestFrame (emit (map Ctx (render s5)) s5) w))"
  by (simp add: loop_def loopTick_def loopDelta_def Let_def)

lemma loopTick_invariant: "engineInvariant (loopTick s w) = engineInvariant s"
  by (simp add: loopTick_def Let_def emit_def invariant_defs)

lemma loop_invariant:
  assumes "engineInvariant s" "lastTime s \<le> performanceNow w"
  shows "engineInvariant (after (loop s w))"
proof -
  have d: "0 \<le> loopDelta s w" using assms(2) by (simp add: loopDelta_def)
  have "engineInvariant (loopTick s w)" using assms(1) by (simp add: loopTick_invariant)
  then have u: "engineInvariant (after (update (loopTick s w) (loopDelta s w) w))"
    using d by (rule update_invariant)
  show ?thesis using assms(1) u
    by (auto simp add: loop_eq after_def requestFrame_invariant emit_invariant split: sum.splits)
qed

lemma startZoneFade_invariant:
  assumes "engineInvariant s"
  shows "engineInvariant (case startZoneFade s w of Inl e \<Rightarrow> snd e
           | Inr p \<Rightarrow> (snd p)\<lparr>state := FADING, stateTime := 0\<rparr>)"
proof -
  have 1: "wellFormed (case startZoneFade s w of Inl e \<Rightarrow> snd e | Inr p \<Rightarrow> snd p)"
    using assms by (intro startZoneFade_wellFormed) (simp add: engineInvariant_def)
  have 2: "alphaBounds (case startZoneFade s w of Inl e \<Rightarrow> snd e | Inr p \<Rightarrow> snd p)"
    using assms by (intro startZoneFade_alphaBounds) (simp add: engineInvariant_def)
  have 3: "oneFade (case startZoneFade s w of Inl e \<Rightarrow> snd e
           | Inr p \<Rightarrow> (snd p)\<lparr>state := FADING, stateTime := 0\<rparr>)"
    using assms by (intro startZoneFade_oneFade) (simp add: engineInvariant_def)
  have 4: "currentSet (case startZoneFade s w of Inl e \<Rightarrow> snd e | Inr p \<Rightarrow> snd p) < 1000"
    using assms by (simp add: startZoneFade_cursor engineInvariant_def)
  show ?thesis using 1 2 3 4
    by (auto simp add: engineInvariant_def wellFormed_def alphaBounds_def split: sum.splits)
qed

lemma start_invariant:
  assumes "engineInvariant s" "performanceNow w \<le> performanceNow w'"
  shows "engineInvariant (after (start s w w'))"
proof (cases "running s")
  case True
  then show ?thesis using assms(1) by (simp add: start_def after_def)
next
  case False
  define s3 where "s3 = s\<lparr>running := True, paused := False, lastTime := performanceNow w,
      lastFrameTime := performanceNow w, fpsTime := performanceNow w, frameCount := 0\<rparr>"
  have eq: "start s w w' = (case startZoneFade s3 w of Inl e \<Rightarrow> Inl e
      | Inr p \<Rightarrow> loop ((snd p)\<lparr>state := FADING, stateTime := 0\<rparr>) w')"
    using False by (simp add: start_def s3_def Let_def split: sum.splits prod.splits)
  have i3: "engineInvariant s3" using assms(1) by (simp add: s3_def invariant_defs)
  have lt: "lastTime (case startZoneFade s3 w of Inl e \<Rightarrow> snd e | Inr p \<Rightarrow> snd p) = performanceNow w"
    by (cases rule: startZoneFade_cases [of s3 w]) (simp_all add: s3_def)
  have i4: "engineInvariant (case startZoneFade s3 w of Inl e \<Rightarrow> snd e
           | Inr p \<Rightarrow> (snd p)\<lparr>state := FADING, stateTime := 0\<rparr>)"
    using i3 by (rule startZoneFade_invariant)
  show ?thesis
  proof (cases "startZoneFade s3 w")
    case (Inl e)
    then show ?thesis using i4 by (simp add: eq after_def)
  next
    case (Inr p)
    have "engineInvariant (after (loop ((snd p)\<lparr>state := FADING, stateTime := 0\<rparr>) w'))"
      using i4 lt assms(2) Inr by (intro loop_invariant) simp_all
    then show ?thesis using Inr by (simp add: eq)
  qed
qed

lemma resume_invariant:
  assumes "engineInvariant s" "performanceNow w \<le> performanceNow w'"
  shows "engineInvariant (after (resume s w w'))"
proof (cases "\<not> running s \<or> \<not> paused s")
  case True
  then show ?thesis using assms(1) by (auto simp add: resume_def after_def)
next
  case False
  define s2 where "s2 = s\<lparr>paused := False, lastTime := performanceNow w, lastFrameTime := performanceNow w\<rparr>"
  have eq: "resume s w w' = loop s2 w'" using False by (simp add: resume_def s2_def Let_def)
  have "engineInvariant s2" using assms(1) by (simp add: s2_def invariant_defs)
  then show ?thesis unfolding eq using assms(2) by (intro loop_invariant) (simp_all add: s2_def)
qed

subsection \<open>Every operation\<close>

lemma reset_invariant:
  assumes "engineInvariant s"
  shows "engineInvariant (reset s)"
proof -
  have wf: "wellFormed s" and ab: "alphaBounds s" using assms by (simp_all add: engineInvariant_def)
  have 1: "wellFormed (reset s)"
    using wf by (auto simp add: wellFormed_def reset_def Let_def clear_used_apply clear_zones_apply
                      split: if_splits)
  have 2: "alphaBounds (reset s)"
    using ab by (auto simp add: alphaBounds_def reset_def Let_def clear_zones_apply split: if_splits)
  have 3: "oneFade (reset s)"
  proof (rule oneFadeI)
    fix c z assume z: "zones (reset s) c = Some z"
    have "zones s c \<noteq> None" using z by (auto simp add: reset_def Let_def clear_zones_apply split: if_splits)
    then have "c \<in> set (categories s)" using wf by (simp add: wellFormed_def)
    then show "incoming z = None \<and> alpha z = 0"
      using z by (auto simp add: reset_def Let_def clear_zones_apply)
  qed
  have 4: "currentSet (reset s) < 1000" by (simp add: reset_def Let_def)
  show ?thesis using 1 2 3 4 by (simp add: engineInvariant_def)
qed

lemma setImages_invariant:
  assumes "engineInvariant s"
  shows "engineInvariant (setImages s imgs cats)"
proof -
  define s0 where "s0 = s\<lparr>imagesByColor := imgs, categories := cats,
              usedImages := init_used cats Map.empty, zones := init_zones cats Map.empty,
              currentZoneIndex := 0, state := IDLE\<rparr>"
  have "engineInvariant s0"
    using assms
    by (auto simp add: s0_def invariant_defs init_used_apply init_zones_apply empty_zone_def
             split: if_splits)
  then have "engineInvariant (reset s0)" by (rule reset_invariant)
  moreover have "reset s0 = setImages s imgs cats"
    by (simp add: s0_def setImages_def reset_def Let_def)
  ultimately show ?thesis by simp
qed

lemma perform_invariant:
  assumes "engineInvariant s" "admissible s c"
  shows "engineInvariant (after (perform s c))"
proof (cases c)
  case (SetImages imgs cats)
  then show ?thesis using assms by (simp add: after_Inr setImages_invariant)
next
  case (SetFrame img)
  then show ?thesis using assms by (simp add: after_Inr setFrame_def invariant_defs)
next
  case (SetBackground img)
  then show ?thesis using assms by (simp add: after_Inr setBackground_def invariant_defs)
next
  case Reset
  then show ?thesis using assms by (simp add: after_Inr reset_invariant)
next
  case (Start w w')
  then show ?thesis using assms by (simp add: start_invariant)
next
  case Stop
  then show ?thesis using assms
    by (simp add: after_Inr stop_def cancelFrame_invariant) (simp add: invariant_defs)
next
  case Pause
  then show ?thesis using assms
    by (simp add: after_Inr pause_def cancelFrame_invariant) (simp add: invariant_defs)
next
  case (Resume w w')
  then show ?thesis using assms by (simp add: resume_invariant)
next
  case BeginTransition
  then show ?thesis using assms by (simp add: after_Inr beginTransition_def invariant_defs)
next
  case (Update d w)
  then show ?thesis using assms by (simp add: update_invariant)
next
  case (Loop w)
  then show ?thesis using assms by (simp add: loop_invariant)
next
  case (Resize w h d)
  then show ?thesis using assms
    by (simp add: after_Inr resize_def Let_def emit_def) (simp add: invariant_defs)
next
  case (AssignFadeDuration v)
  then show ?thesis using assms by (simp add: after_Inr invariant_defs)
next
  case (AssignHoldDuration v)
  then show ?thesis using assms by (simp add: after_Inr invariant_defs)
next
  case (AssignReducedMotion b)
  then show ?thesis using assms by (simp add: after_Inr invariant_defs)
next
  case (AssignOnStatusUpdate b)
  then show ?thesis using assms by (simp add: after_Inr invariant_defs)
next
  case (AssignOnFpsUpdate b)
  then show ?thesis using assms by (simp add: after_Inr invariant_defs)
next
  case (AssignOnTransitionComplete b)
  then show ?thesis using assms by (simp add: after_Inr invariant_defs)
qed

lemma new_Animator_invariant: "engineInvariant (new_Animator w h reduced)"
  by (simp add: new_Animator_def invariant_defs)

lemma reachable_invariant: "reachable s \<Longrightarrow> engineInvariant s"
  by (induction rule: reachable.induct) (simp_all add: new_Animator_invariant perform_invariant)

subsection \<open>Reachable engines\<close>

lemma demo_engine_reachable: "reachable (demo_engine reduced)"
proof -
  have "reachable (after (perform (new_Animator 800 800 reduced) (SetImages demo_images [''pink'', ''green''])))"
    by (rule reachable.called [OF reachable.constructed]) simp
  then show ?thesis by (simp add: demo_engine_def after_Inr)
qed

lemma demo_started_reachable: "reachable (demo_started reduced)"
proof -
  have "reachable (after (perform (demo_engine reduced) (Start (demo_env 0 0) (demo_env 0 0))))"
    by (rule reachable.called [OF demo_engine_reachable]) simp
  then show ?thesis by (simp add: demo_started_def)
qed

lemma ticks_reachable:
  "reachable s \<Longrightarrow> \<forall>d \<in> set ds. 0 \<le> fst d \<Longrightarrow> reachable (ticks s ds)"
proof (induction ds arbitrary: s)
  case Nil
  then show ?case by simp
next
  case (Cons d ds)
  have "reachable (after (perform s (Update (fst d) (snd d))))"
    using Cons.prems by (intro reachable.called) simp_all
  then show ?case using Cons by simp
qed

lemmas tick_defs = update_def stateSwitch_def fadeIn_def effectiveFadeDuration_def completeZoneFade_def
  advanceToNextZone_def easeInOutCubic_def

subsection \<open>Alpha bounds\<close>

text \<open>
  C4. After any sequence of \<open>update(deltaTime)\<close> calls with deltas that are not negative,
  however large, made on any engine that the public operations can reach, the transition
  alpha and the alpha of every zone are in \<open>[0,1]\<close>. (Fade durations are positive; the
  numbers are reals.)
\<close>

theorem alpha_within_unit_interval:
  assumes "reachable s" "\<forall>d \<in> set ds. 0 \<le> fst d"
  shows "0 \<le> transitionAlpha (ticks s ds) \<and> transitionAlpha (ticks s ds) \<le> 1
         \<and> (\<forall>c z. zones (ticks s ds) c = Some z \<longrightarrow> 0 \<le> alpha z \<and> alpha z \<le> 1)"
proof -
  have "reachable (ticks s ds)" using assms by (rule ticks_reachable)
  then have "alphaBounds (ticks s ds)"
    using reachable_invariant by (simp add: engineInvariant_def)
  then show ?thesis by (simp add: alphaBounds_def)
qed

theorem alpha_within_unit_interval_witness:
  "reachable (demo_started False)
   \<and> 0 \<le> transitionAlpha (ticks (demo_started False) [(1, demo_env 1000 0), (100, demo_env 101000 0)])
   \<and> transitionAlpha (ticks (demo_started False) [(1, demo_env 1000 0), (100, demo_env 101000 0)]) \<le> 1
   \<and> (case zones (ticks (demo_started False) [(1, demo_env 1000 0)]) ''pink'' of
         None \<Rightarrow> False
       | Some z \<Rightarrow> incoming z \<noteq> None \<and> alpha z = 1 - (14 / 17) ^ 3 / 2 \<and> 0 \<le> alpha z \<and> alpha z \<le> 1)"
proof -
  have r: "reachable (demo_started False)" by (rule demo_started_reachable)
  have d: "\<forall>d \<in> set [(1::real, demo_env 1000 0), (100, demo_env 101000 0)]. 0 \<le> fst d" by simp
  have d1: "\<forall>d \<in> set [(1::real, demo_env 1000 0)]. 0 \<le> fst d" by simp
  define z where "z = \<lparr> current = None, incoming = Some \<lparr> src = ''p1.png'', width = 100, height = 50 \<rparr>,
                 alpha = 1 - (14 / 17) ^ 3 / (2::real) \<rparr>"
  have z: "zones (ticks (demo_started False) [(1, demo_env 1000 0)]) ''pink'' = Some z"
    by (simp add: z_def demo_defs engine_defs tick_defs)
  have b: "0 \<le> alpha z \<and> alpha z \<le> 1"
    using alpha_within_unit_interval [OF r d1] z by blast
  have zi: "incoming z \<noteq> None \<and> alpha z = 1 - (14 / 17) ^ 3 / 2" by (simp add: z_def)
  have t: "0 \<le> transitionAlpha (ticks (demo_started False) [(1, demo_env 1000 0), (100, demo_env 101000 0)])
   \<and> transitionAlpha (ticks (demo_started False) [(1, demo_env 1000 0), (100, demo_env 101000 0)]) \<le> 1"
    using alpha_within_unit_interval [OF r d] by blast
  show ?thesis using r t b zi by (simp only: z option.case) simp
qed

subsection \<open>One fading zone\<close>

text \<open>
  C10. In every engine that the public operations can reach, every zone other than the
  zone of \<open>categories[currentZoneIndex]\<close> has no incoming image and alpha 0; so at most
  one zone has an incoming image, and when one has, it is that zone, and the engine is
  fading.
\<close>

theorem one_incoming_zone:
  assumes "reachable s"
  shows "(\<forall>c z. zones s c = Some z \<and> c \<noteq> activeKey s \<longrightarrow> incoming z = None \<and> alpha z = 0)
       \<and> (\<forall>c c' z z'. zones s c = Some z \<and> incoming z \<noteq> None \<and> zones s c' = Some z' \<and> incoming z' \<noteq> None
             \<longrightarrow> c = c' \<and> c = activeKey s \<and> state s = FADING)"
proof -
  have o: "oneFade s" using reachable_invariant [OF assms] by (simp add: engineInvariant_def)
  have others: "incoming z = None \<and> alpha z = 0" if "zones s c = Some z" "c \<noteq> activeKey s" for c z
    using oneFade_others [OF o that(2) that(1)] .
  have only: "c = activeKey s \<and> state s = FADING" if "zones s c = Some z" "incoming z \<noteq> None" for c z
  proof -
    have "c = activeKey s" using others [OF that(1)] that(2) by auto
    moreover have "state s = FADING" using oneFade_quiet [OF o _ that(1)] that(2) by auto
    ultimately show ?thesis by simp
  qed
  have "c = c' \<and> c = activeKey s \<and> state s = FADING"
    if "zones s c = Some z" "incoming z \<noteq> None" "zones s c' = Some z'" "incoming z' \<noteq> None" for c c' z z'
    using only [OF that(1,2)] only [OF that(3,4)] by simp
  then show ?thesis using others by blast
qed

theorem one_incoming_zone_witness:
  "reachable (demo_started False)
   \<and> activeKey (demo_started False) = ''pink''
   \<and> zones (demo_started False) ''pink''
       = Some \<lparr> current = None, incoming = Some \<lparr> src = ''p1.png'', width = 100, height = 50 \<rparr>, alpha = 0 \<rparr>
   \<and> (case zones (demo_started False) ''green'' of
         None \<Rightarrow> False | Some z \<Rightarrow> incoming z = None \<and> alpha z = 0)"
proof -
  have r: "reachable (demo_started False)" by (rule demo_started_reachable)
  have a: "activeKey (demo_started False) = ''pink''"
    by (simp add: activeKey_def demo_defs engine_defs)
  have p: "zones (demo_started False) ''pink''
       = Some \<lparr> current = None, incoming = Some \<lparr> src = ''p1.png'', width = 100, height = 50 \<rparr>, alpha = 0 \<rparr>"
    by (simp add: demo_defs engine_defs)
  obtain z where z: "zones (demo_started False) ''green'' = Some z"
    by (simp add: demo_defs engine_defs)
  have "''green'' \<noteq> activeKey (demo_started False)" by (simp add: a)
  then have "incoming z = None \<and> alpha z = 0"
    using one_incoming_zone [OF r] z by blast
  then show ?thesis using r a p z by simp
qed

subsection \<open>The state cycle\<close>







lemma empty_started_reachable: "reachable empty_started"
proof -
  have 1: "reachable (after (perform (new_Animator 800 800 False) (SetImages Map.empty [])))"
    by (rule reachable.called [OF reachable.constructed]) simp
  have "reachable (after (perform (after (perform (new_Animator 800 800 False) (SetImages Map.empty [])))
      (Start (demo_env 0 0) (demo_env 0 0))))"
    by (rule reachable.called [OF 1]) simp
  then show ?thesis by (simp add: empty_started_def after_Inr)
qed






subsection \<open>The cursor\<close>





















subsection \<open>An empty category list\<close>

text \<open>
  A category with an empty image list takes its slot: its zone stays empty and draws
  nothing while the engine fades and holds on it, and the cursor then moves on.
\<close>

lemma empty_category_slot:
  "state sparse_started = FADING \<and> currentZoneIndex sparse_started = 0
   \<and> zones sparse_started ''pink'' = Some empty_zone
   \<and> drawZone sparse_started ''pink'' = []
   \<and> returned (update sparse_started 2 (demo_env 2000 0)) \<noteq> None
   \<and> state (ticks sparse_started [(2, demo_env 2000 0)]) = HOLDING
   \<and> zones (ticks sparse_started [(2, demo_env 2000 0)]) ''pink'' = Some empty_zone
   \<and> drawZone (ticks sparse_started [(2, demo_env 2000 0)]) ''pink'' = []
   \<and> returned (update (ticks sparse_started [(2, demo_env 2000 0)]) 2 (demo_env 4000 0)) \<noteq> None
   \<and> state (ticks sparse_started [(2, demo_env 2000 0), (2, demo_env 4000 0)]) = FADING
   \<and> currentZoneIndex (ticks sparse_started [(2, demo_env 2000 0), (2, demo_env 4000 0)]) = 1
   \<and> zones (ticks sparse_started [(2, demo_env 2000 0), (2, demo_env 4000 0)]) ''green''
       = Some \<lparr> current = None, incoming = Some \<lparr> src = ''g1.png'', width = 100, height = 50 \<rparr>, alpha = 0 \<rparr>
   \<and> zones (ticks sparse_started [(2, demo_env 2000 0), (2, demo_env 4000 0)]) ''pink'' = Some empty_zone"
  by (simp add: sparse_started_def sparse_images_def demo_defs engine_defs tick_defs returned_def
        drawZone_def)

text \<open>
  C8, at the input where the code fails it. With an empty category list the cursor's colour is
  \<open>undefined\<close> and has no zone; the FADING case of \<open>update\<close> guards its alpha assignment
  with \<open>zone && zone.incoming\<close>, but \<open>completeZoneFade\<close> writes \<open>zone.current\<close> without a
  guard, so the \<open>update\<close> that ends the first fade throws a \<open>TypeError\<close>.
\<close>

theorem update_throws_without_categories:
  "reachable empty_started \<and> categories empty_started = [] \<and> state empty_started = FADING
   \<and> update empty_started (17 / 10) (demo_env 1700 0)
       = Inl (TypeError, empty_started\<lparr>stateTime := 17 / 10\<rparr>)"
proof -
  have e: "empty_started = (new_Animator 800 800 False)\<lparr>running := True, state := FADING,
      animationId := Some 1, trace := [WarnNoImages ''undefined'', RequestFrame 1]\<rparr>"
    by (simp add: empty_started_def demo_defs engine_defs)
  have "update ((new_Animator 800 800 False)\<lparr>running := True, state := FADING,
      animationId := Some 1, trace := [WarnNoImages ''undefined'', RequestFrame 1]\<rparr>) (17 / 10) (demo_env 1700 0)
     = Inl (TypeError, (new_Animator 800 800 False)\<lparr>running := True, state := FADING,
      animationId := Some 1, trace := [WarnNoImages ''undefined'', RequestFrame 1], stateTime := 17 / 10\<rparr>)"
    by (simp add: demo_defs engine_defs tick_defs)
  then show ?thesis using empty_started_reachable by (simp add: e) (simp add: new_Animator_def)
qed

subsection \<open>The canvas geometry\<close>
























subsection \<open>The compositor\<close>


lemma surface_same: "c\<lparr>globalAlpha := globalAlpha c, layers := layers c\<rparr> = c"
  by simp


















subsection \<open>Reduced motion\<close>








subsection \<open>The style transition\<close>




















end
